theory Spec2Isabelle
  imports Main
begin

section \<open>Python values used by the program\<close>

text \<open>
  \<^verbatim>\<open>Taller5.py\<close> is a menu-driven catalogue of books kept in a Redis/KeyDB store.
  A book is a Python \<^verbatim>\<open>dict\<close>, serialised with \<^verbatim>\<open>json.dumps\<close> and stored as a Redis string
  under \<^verbatim>\<open>KEY_PREFIX + id\<close>; the identifiers are kept in the Redis set \<^verbatim>\<open>ALL_BOOKS_KEY\<close>.

  A Python \<^verbatim>\<open>str\<close> is a sequence of code points, so it is modelled as a list of
  naturals. The byte strings that travel to and from the store are identified with the
  text they encode in UTF-8 (redis-py encodes every \<^verbatim>\<open>str\<close> argument that way, and the program
  decodes what it reads back); store contents that are not UTF-8 text are outside the model.
\<close>

type_synonym codepoint = nat
type_synonym pystr = "codepoint list"

definition ascii :: "string \<Rightarrow> pystr" where
  "ascii s = map of_char s"

text \<open>\<^verbatim>\<open>str.strip()\<close> removes leading and trailing white space (the code points for which
  \<^verbatim>\<open>str.isspace\<close> holds).\<close>

definition py_isspace :: "codepoint \<Rightarrow> bool" where
  "py_isspace c =
     ((0x09 \<le> c \<and> c \<le> 0x0D) \<or> (0x1C \<le> c \<and> c \<le> 0x20) \<or> c = 0x85 \<or> c = 0xA0
      \<or> c = 0x1680 \<or> (0x2000 \<le> c \<and> c \<le> 0x200A) \<or> c = 0x2028 \<or> c = 0x2029
      \<or> c = 0x202F \<or> c = 0x205F \<or> c = 0x3000)"

definition py_strip :: "pystr \<Rightarrow> pystr" where
  "py_strip s = rev (dropWhile py_isspace (rev (dropWhile py_isspace s)))"

text \<open>\<^verbatim>\<open>s.endswith(suffix)\<close> and the slice \<^verbatim>\<open>s[-5:]\<close>.\<close>

definition endswith :: "pystr \<Rightarrow> pystr \<Rightarrow> bool" where
  "endswith s suffix =
     (length suffix \<le> length s \<and> drop (length s - length suffix) s = suffix)"

definition last5 :: "pystr \<Rightarrow> pystr" where
  "last5 s = drop (length s - 5) s"

text \<open>
  \<^verbatim>\<open>str.isdigit\<close> and \<^verbatim>\<open>int\<close> consult the Unicode character database, which is not part
  of the repository: it is a parameter. \<open>digit\<close> is the per-character test of
  \<^verbatim>\<open>isdigit\<close>, \<open>decimal\<close> the value of a decimal digit (the characters \<^verbatim>\<open>int\<close> accepts),
  and \<open>int_max_str_digits\<close> the interpreter's limit on the length of a numeral
  (\<open>0\<close>: no limit). \<^verbatim>\<open>int\<close> raises \<^verbatim>\<open>ValueError\<close> (here \<open>None\<close>) otherwise.
\<close>

record ucd =
  digit :: "codepoint \<Rightarrow> bool"
  decimal :: "codepoint \<Rightarrow> nat option"
  int_max_str_digits :: nat

definition py_isdigit :: "ucd \<Rightarrow> pystr \<Rightarrow> bool" where
  "py_isdigit u s = (s \<noteq> [] \<and> list_all (digit u) s)"

definition py_int :: "ucd \<Rightarrow> pystr \<Rightarrow> int option" where
  "py_int u s =
     (if s \<noteq> [] \<and> list_all (\<lambda>c. decimal u c \<noteq> None) s
         \<and> (int_max_str_digits u = 0 \<or> length s \<le> int_max_str_digits u)
      then Some (int (foldl (\<lambda>a c. 10 * a + the (decimal u c)) 0 s))
      else None)"

definition is_digit09 :: "codepoint \<Rightarrow> bool" where
  "is_digit09 c = (48 \<le> c \<and> c \<le> 57)"

definition ascii_ucd :: ucd where
  "ascii_ucd = \<lparr> digit = is_digit09,
                 decimal = (\<lambda>c. if is_digit09 c then Some (c - 48) else None),
                 int_max_str_digits = 4300 \<rparr>"

text \<open>
  The values \<^verbatim>\<open>json.loads\<close> returns. A \<^verbatim>\<open>dict\<close> keeps its keys in insertion order, which
  is the order \<^verbatim>\<open>json.dumps\<close> writes them in: an association list. Python's \<^verbatim>\<open>None\<close> is
  \<open>JNull\<close>. Numbers with a fraction or an exponent are floating point and are not modelled.
\<close>

datatype json =
    JNull
  | JBool bool
  | JInt int
  | JStr pystr
  | JArr "json list"
  | JObj "(pystr \<times> json) list"

datatype pyerr =
    ResponseError
  | DataError
  | JSONDecodeError
  | AttributeError
  | KeyError
  | TypeError
  | NotModelled

fun truthy :: "json \<Rightarrow> bool" where
  "truthy JNull = False"
| "truthy (JBool b) = b"
| "truthy (JInt i) = (i \<noteq> 0)"
| "truthy (JStr s) = (s \<noteq> [])"
| "truthy (JArr xs) = (xs \<noteq> [])"
| "truthy (JObj d) = (d \<noteq> [])"

text \<open>\<^verbatim>\<open>d[k] = v\<close> on a dict: an existing key keeps its place.\<close>

fun dict_set :: "(pystr \<times> json) list \<Rightarrow> pystr \<Rightarrow> json \<Rightarrow> (pystr \<times> json) list" where
  "dict_set [] k v = [(k, v)]"
| "dict_set ((k', v') # d) k v = (if k' = k then (k, v) # d else (k', v') # dict_set d k v)"

text \<open>\<^verbatim>\<open>libro[k]\<close> and \<^verbatim>\<open>libro.get(k, default)\<close>, on whatever value was decoded.\<close>

definition subscript :: "json \<Rightarrow> pystr \<Rightarrow> pyerr + json" where
  "subscript j k =
     (case j of
        JObj d \<Rightarrow> (case map_of d k of None \<Rightarrow> Inl KeyError | Some v \<Rightarrow> Inr v)
      | _ \<Rightarrow> Inl TypeError)"

definition dict_get :: "json \<Rightarrow> pystr \<Rightarrow> json \<Rightarrow> pyerr + json" where
  "dict_get j k dflt =
     (case j of
        JObj d \<Rightarrow> Inr (case map_of d k of None \<Rightarrow> dflt | Some v \<Rightarrow> v)
      | _ \<Rightarrow> Inl AttributeError)"

section \<open>The JSON codec\<close>

subsection \<open>Encoding: \<^verbatim>\<open>json.dumps\<close> with its defaults\<close>

text \<open>
  With \<^verbatim>\<open>ensure_ascii=True\<close> a string is written between double quotes; the backslash, the
  double quote and every code point outside \<^verbatim>\<open>' '..'~'\<close> is escaped: the short escapes
  \<^verbatim>\<open>\b \f \n \r \t\<close>, else \<^verbatim>\<open>\uXXXX\<close> in lower-case hexadecimal, and a code point
  beyond \<open>0xFFFF\<close> as a surrogate pair
  \<^verbatim>\<open>s1 = 0xd800 | ((n >> 10) & 0x3ff)\<close>, \<^verbatim>\<open>s2 = 0xdc00 | (n & 0x3ff)\<close> with
  \<^verbatim>\<open>n = ord(c) - 0x10000\<close> (the bit operations written as arithmetic).
\<close>

definition hexdigit :: "nat \<Rightarrow> codepoint" where
  "hexdigit d = (if d < 10 then 48 + d else 87 + d)"

definition hex4 :: "nat \<Rightarrow> pystr" where
  "hex4 n = [hexdigit (n div 4096 mod 16), hexdigit (n div 256 mod 16),
             hexdigit (n div 16 mod 16), hexdigit (n mod 16)]"

definition escape_char :: "codepoint \<Rightarrow> pystr" where
  "escape_char c =
     (if c = 0x5C then [0x5C, 0x5C]
      else if c = 0x22 then [0x5C, 0x22]
      else if c = 0x08 then [0x5C, 0x62]
      else if c = 0x0C then [0x5C, 0x66]
      else if c = 0x0A then [0x5C, 0x6E]
      else if c = 0x0D then [0x5C, 0x72]
      else if c = 0x09 then [0x5C, 0x74]
      else if 0x20 \<le> c \<and> c \<le> 0x7E then [c]
      else if c < 0x10000 then [0x5C, 0x75] @ hex4 c
      else let n = c - 0x10000 in
        [0x5C, 0x75] @ hex4 (0xD800 + n div 1024 mod 1024)
          @ [0x5C, 0x75] @ hex4 (0xDC00 + n mod 1024))"

definition py_encode_basestring_ascii :: "pystr \<Rightarrow> pystr" where
  "py_encode_basestring_ascii s = [0x22] @ concat (map escape_char s) @ [0x22]"

text \<open>An \<^verbatim>\<open>int\<close> is written in decimal.\<close>

fun dec_digits :: "nat \<Rightarrow> pystr" where
  "dec_digits n = (if n < 10 then [48 + n] else dec_digits (n div 10) @ [48 + n mod 10])"

declare dec_digits.simps [simp del]

definition int_repr :: "int \<Rightarrow> pystr" where
  "int_repr i = (if i < 0 then 0x2D # dec_digits (nat (- i)) else dec_digits (nat i))"

text \<open>The separators are \<^verbatim>\<open>', '\<close> and \<^verbatim>\<open>': '\<close>.\<close>

fun json_dumps :: "json \<Rightarrow> pystr"
  and dumps_elems :: "json list \<Rightarrow> pystr"
  and dumps_items :: "(pystr \<times> json) list \<Rightarrow> pystr" where
  "json_dumps JNull = ascii ''null''"
| "json_dumps (JBool b) = (if b then ascii ''true'' else ascii ''false'')"
| "json_dumps (JInt i) = int_repr i"
| "json_dumps (JStr s) = py_encode_basestring_ascii s"
| "json_dumps (JArr xs) = ascii ''['' @ dumps_elems xs @ ascii '']''"
| "json_dumps (JObj d) = ascii ''{'' @ dumps_items d @ ascii ''}''"
| "dumps_elems [] = []"
| "dumps_elems [x] = json_dumps x"
| "dumps_elems (x # y # ys) = json_dumps x @ ascii '', '' @ dumps_elems (y # ys)"
| "dumps_items [] = []"
| "dumps_items [(k, v)] = py_encode_basestring_ascii k @ ascii '': '' @ json_dumps v"
| "dumps_items ((k, v) # kv # d) =
     py_encode_basestring_ascii k @ ascii '': '' @ json_dumps v @ ascii '', ''
       @ dumps_items (kv # d)"

subsection \<open>Decoding: \<^verbatim>\<open>json.loads\<close>\<close>

text \<open>
  \<^verbatim>\<open>scanstring\<close> reads a string literal after its opening quote. Each turn of its loop
  reads one chunk: the closing quote, an escape, or a plain character (a control
  character is refused, \<^verbatim>\<open>strict=True\<close>). A \<^verbatim>\<open>\uXXXX\<close> escape that is a high surrogate and
  is directly followed by a \<^verbatim>\<open>\uXXXX\<close> escape that is a low surrogate is read as one code
  point, \<^verbatim>\<open>0x10000 + (((uni - 0xd800) << 10) | (uni2 - 0xdc00))\<close>. \<open>Emit c n\<close> is the
  character read and the number of code points it took.
\<close>

definition hexval :: "codepoint \<Rightarrow> nat option" where
  "hexval c =
     (if 48 \<le> c \<and> c \<le> 57 then Some (c - 48)
      else if 97 \<le> c \<and> c \<le> 102 then Some (c - 87)
      else if 65 \<le> c \<and> c \<le> 70 then Some (c - 55)
      else None)"

definition decode_uXXXX :: "pystr \<Rightarrow> nat option" where
  "decode_uXXXX s =
     (case map hexval (take 4 s) of
        [Some a, Some b, Some c, Some d] \<Rightarrow> Some (((a * 16 + b) * 16 + c) * 16 + d)
      | _ \<Rightarrow> None)"

definition backslash :: "codepoint \<Rightarrow> codepoint option" where
  "backslash esc =
     (if esc = 0x22 then Some 0x22
      else if esc = 0x5C then Some 0x5C
      else if esc = 0x2F then Some 0x2F
      else if esc = 0x62 then Some 0x08
      else if esc = 0x66 then Some 0x0C
      else if esc = 0x6E then Some 0x0A
      else if esc = 0x72 then Some 0x0D
      else if esc = 0x74 then Some 0x09
      else None)"

datatype chunk = Terminator | Invalid | Emit codepoint nat

definition scan_escape :: "pystr \<Rightarrow> chunk" where
  "scan_escape s =
     (case s of
        [] \<Rightarrow> Invalid
      | esc # s' \<Rightarrow>
          if esc \<noteq> 0x75 then
            (case backslash esc of None \<Rightarrow> Invalid | Some ch \<Rightarrow> Emit ch 2)
          else
            (case decode_uXXXX s' of
               None \<Rightarrow> Invalid
             | Some uni \<Rightarrow>
                 if 0xD800 \<le> uni \<and> uni \<le> 0xDBFF \<and> take 2 (drop 4 s') = [0x5C, 0x75] then
                   (case decode_uXXXX (drop 6 s') of
                      None \<Rightarrow> Invalid
                    | Some uni2 \<Rightarrow>
                        if 0xDC00 \<le> uni2 \<and> uni2 \<le> 0xDFFF
                        then Emit (0x10000 + ((uni - 0xD800) * 1024 + (uni2 - 0xDC00))) 12
                        else Emit uni 6)
                 else Emit uni 6))"

definition scan_chunk :: "codepoint \<Rightarrow> pystr \<Rightarrow> chunk" where
  "scan_chunk c s =
     (if c = 0x22 then Terminator
      else if c = 0x5C then scan_escape s
      else if c < 0x20 then Invalid
      else Emit c 1)"

fun py_scanstring :: "pystr \<Rightarrow> pystr \<Rightarrow> (pystr \<times> pystr) option" where
  "py_scanstring chunks [] = None"
| "py_scanstring chunks (c # s) =
    (case scan_chunk c s of
       Terminator \<Rightarrow> Some (chunks, s)
     | Invalid \<Rightarrow> None
     | Emit ch n \<Rightarrow> py_scanstring (chunks @ [ch]) (drop (n - 1) s))"

text \<open>
  A number matches \<^verbatim>\<open>(-?(?:0|[1-9][0-9]*))(\.[0-9]+)?([eE][-+]?[0-9]+)?\<close>; with a fraction
  or an exponent it is a float, as are \<^verbatim>\<open>NaN\<close>, \<^verbatim>\<open>Infinity\<close> and \<^verbatim>\<open>-Infinity\<close>: the
  decoder of the model answers \<open>NotModelled\<close> for them.
\<close>

definition int_of_digits :: "pystr \<Rightarrow> nat" where
  "int_of_digits ds = foldl (\<lambda>a d. 10 * a + (d - 48)) 0 ds"

definition match_integer :: "pystr \<Rightarrow> (pystr \<times> pystr) option" where
  "match_integer s =
     (case s of
        [] \<Rightarrow> None
      | d # t \<Rightarrow>
          if d = 48 then Some ([d], t)
          else if is_digit09 d then Some (d # takeWhile is_digit09 t, dropWhile is_digit09 t)
          else None)"

definition match_number :: "pystr \<Rightarrow> (int \<times> pystr) option" where
  "match_number s =
     (case s of
        [] \<Rightarrow> None
      | c # t \<Rightarrow>
          if c = 0x2D
          then map_option (\<lambda>(ds, rest). (- int (int_of_digits ds), rest)) (match_integer t)
          else map_option (\<lambda>(ds, rest). (int (int_of_digits ds), rest)) (match_integer s))"

definition digit_follows :: "pystr \<Rightarrow> bool" where
  "digit_follows s = (case s of [] \<Rightarrow> False | d # _ \<Rightarrow> is_digit09 d)"

definition float_tail :: "pystr \<Rightarrow> bool" where
  "float_tail s =
     (case s of
        [] \<Rightarrow> False
      | c # t \<Rightarrow>
          if c = 0x2E then digit_follows t
          else if c = 0x65 \<or> c = 0x45 then
            (case t of
               [] \<Rightarrow> False
             | g # r \<Rightarrow> if g = 0x2B \<or> g = 0x2D then digit_follows r else is_digit09 g)
          else False)"

definition starts_with :: "pystr \<Rightarrow> pystr \<Rightarrow> bool" where
  "starts_with s p = (take (length p) s = p)"

text \<open>
  The decoder is split into a scanner of tokens and a parser of the token sequence.
  White space (space, tab, line feed, carriage return) may stand between any two tokens.
\<close>

datatype token = TLBrace | TRBrace | TLBrack | TRBrack | TColon | TComma | TScalar json

definition tcons :: "token \<Rightarrow> pyerr + token list \<Rightarrow> pyerr + token list" where
  "tcons t r = (case r of Inl e \<Rightarrow> Inl e | Inr ts \<Rightarrow> Inr (t # ts))"

function tokenize :: "pystr \<Rightarrow> pyerr + token list" where
  "tokenize [] = Inr []"
| "tokenize (c # s) =
    (if c = 0x20 \<or> c = 0x09 \<or> c = 0x0A \<or> c = 0x0D then tokenize s
     else if c = 0x22 then
       (case py_scanstring [] s of
          None \<Rightarrow> Inl JSONDecodeError
        | Some (str, rest) \<Rightarrow> tcons (TScalar (JStr str)) (tokenize rest))
     else if c = 0x7B then tcons TLBrace (tokenize s)
     else if c = 0x7D then tcons TRBrace (tokenize s)
     else if c = 0x5B then tcons TLBrack (tokenize s)
     else if c = 0x5D then tcons TRBrack (tokenize s)
     else if c = 0x3A then tcons TColon (tokenize s)
     else if c = 0x2C then tcons TComma (tokenize s)
     else if starts_with (c # s) (ascii ''null'') then tcons (TScalar JNull) (tokenize (drop 3 s))
     else if starts_with (c # s) (ascii ''true'')
       then tcons (TScalar (JBool True)) (tokenize (drop 3 s))
     else if starts_with (c # s) (ascii ''false'')
       then tcons (TScalar (JBool False)) (tokenize (drop 4 s))
     else
       (case match_number (c # s) of
          Some (i, rest) \<Rightarrow>
            if float_tail rest then Inl NotModelled else tcons (TScalar (JInt i)) (tokenize rest)
        | None \<Rightarrow>
            if starts_with (c # s) (ascii ''NaN'') \<or> starts_with (c # s) (ascii ''Infinity'')
               \<or> starts_with (c # s) (ascii ''-Infinity'')
            then Inl NotModelled
            else Inl JSONDecodeError))"
  by pat_completeness auto
termination
proof (relation "measure length")
  have scan: "py_scanstring chunks s = Some (str, rest) \<Longrightarrow> length rest \<le> length s"
    for chunks s str rest
  proof (induction chunks s rule: py_scanstring.induct)
    case (1 chunks)
    then show ?case by simp
  next
    case (2 chunks c s)
    show ?case
    proof (cases "scan_chunk c s")
      case Terminator
      with 2 show ?thesis by simp
    next
      case Invalid
      with 2 show ?thesis by simp
    next
      case (Emit ch n)
      with 2 have "length rest \<le> length (drop (n - 1) s)" by simp
      then show ?thesis by simp
    qed
  qed
  have mi: "match_integer s = Some (ds, rest) \<Longrightarrow> length rest < length s" for s ds rest
    by (cases s) (auto simp: match_integer_def less_Suc_eq_le length_dropWhile_le split: if_splits)
  have mn: "match_number s = Some (i, rest) \<Longrightarrow> length rest < length s" for s i rest
    by (cases s) (auto simp: match_number_def less_Suc_eq dest!: mi split: if_splits)
  show "wf (measure length)" by simp
  fix c s x2 x y
  { assume "py_scanstring [] s = Some x2" "(x, y) = x2"
    then show "(y, c # s) \<in> measure length" using scan[of "[]" s x y] by simp }
  { assume "match_number (c # s) = Some x2" "(x, y) = x2"
    then show "(y, c # s) \<in> measure length" using mn[of "c # s" x y] by simp }
qed simp_all

text \<open>
  The parser keeps the containers that are still open on a stack. An object is built
  with \<open>dict_set\<close>: of two equal keys the later value wins, at the place of the first.
  A value is followed by a comma or the closing bracket; after a comma a value (in an
  array) or a key (in an object) must follow.
\<close>

datatype frame =
    FArr "json list"
  | FObj "(pystr \<times> json) list"
  | FKey "(pystr \<times> json) list" pystr

datatype pstate = SValue | SValueOrEnd | SKeyOrEnd | SKey | SColon | SNext | SDone json

definition put :: "json \<Rightarrow> frame list \<Rightarrow> (pstate \<times> frame list) option" where
  "put v st =
     (case st of
        [] \<Rightarrow> Some (SDone v, [])
      | FArr xs # st' \<Rightarrow> Some (SNext, FArr (xs @ [v]) # st')
      | FKey d k # st' \<Rightarrow> Some (SNext, FObj (dict_set d k v) # st')
      | FObj d # st' \<Rightarrow> None)"

definition start_value :: "token \<Rightarrow> frame list \<Rightarrow> (pstate \<times> frame list) option" where
  "start_value t st =
     (case t of
        TScalar v \<Rightarrow> put v st
      | TLBrack \<Rightarrow> Some (SValueOrEnd, FArr [] # st)
      | TLBrace \<Rightarrow> Some (SKeyOrEnd, FObj [] # st)
      | _ \<Rightarrow> None)"

definition start_key :: "token \<Rightarrow> frame list \<Rightarrow> (pstate \<times> frame list) option" where
  "start_key t st =
     (case (t, st) of
        (TScalar (JStr k), FObj d # st') \<Rightarrow> Some (SColon, FKey d k # st')
      | _ \<Rightarrow> None)"

definition close_frame :: "token \<Rightarrow> frame list \<Rightarrow> (pstate \<times> frame list) option" where
  "close_frame t st =
     (case (t, st) of
        (TRBrack, FArr xs # st') \<Rightarrow> put (JArr xs) st'
      | (TRBrace, FObj d # st') \<Rightarrow> put (JObj d) st'
      | _ \<Rightarrow> None)"

definition pstep :: "pstate \<Rightarrow> frame list \<Rightarrow> token \<Rightarrow> (pstate \<times> frame list) option" where
  "pstep ps st t =
     (case ps of
        SValue \<Rightarrow> start_value t st
      | SValueOrEnd \<Rightarrow> (if t = TRBrack then close_frame t st else start_value t st)
      | SKeyOrEnd \<Rightarrow> (if t = TRBrace then close_frame t st else start_key t st)
      | SKey \<Rightarrow> start_key t st
      | SColon \<Rightarrow> (if t = TColon then Some (SValue, st) else None)
      | SNext \<Rightarrow>
          (if t = TComma then
             (case st of
                FArr xs # _ \<Rightarrow> Some (SValue, st)
              | FObj d # _ \<Rightarrow> Some (SKey, st)
              | _ \<Rightarrow> None)
           else close_frame t st)
      | SDone v \<Rightarrow> None)"

fun parse :: "pstate \<Rightarrow> frame list \<Rightarrow> token list \<Rightarrow> json option" where
  "parse ps st [] = (case ps of SDone v \<Rightarrow> Some v | _ \<Rightarrow> None)"
| "parse ps st (t # ts) =
     (case pstep ps st t of None \<Rightarrow> None | Some (ps', st') \<Rightarrow> parse ps' st' ts)"

definition json_loads :: "pystr \<Rightarrow> pyerr + json" where
  "json_loads s =
     (case tokenize s of
        Inl e \<Rightarrow> Inl e
      | Inr ts \<Rightarrow> (case parse SValue [] ts of None \<Rightarrow> Inl JSONDecodeError | Some v \<Rightarrow> Inr v))"

section \<open>The store\<close>

text \<open>
  A Redis database maps a key to a string or to a set. The set is kept as a list without
  repetitions, in the order in which \<^verbatim>\<open>SMEMBERS\<close> enumerates it (redis-py returns a Python
  \<^verbatim>\<open>set\<close>, whose iteration order is arbitrary: the statements below hold for every order
  the list may have). A command on a key of the wrong type is answered with an error,
  which redis-py raises as \<^verbatim>\<open>ResponseError\<close>; \<^verbatim>\<open>MGET\<close> answers nil for such a key.
  Every command sent is appended to \<open>cmds\<close>, every message printed to \<open>out\<close>.
  Failures of the connection are not modelled.
\<close>

datatype rval = RString pystr | RSet "pystr list"

datatype cmd =
    SET pystr pystr
  | SADD pystr pystr
  | SMEMBERS pystr
  | GET pystr
  | MGET "pystr list"
  | DEL pystr
  | SREM pystr pystr

text \<open>A row of the table \<^verbatim>\<open>listar_libros\<close> prints: the last five characters of the id,
  the title cut to 35 and the author cut to 25 characters, the year or \<^verbatim>\<open>'N/A'\<close>, and
  whether the book was read.\<close>

datatype fila = Fila pystr pystr pystr json bool

text \<open>The messages of the program, by the line that prints them (banners and rules are
  left out).\<close>

datatype msg =
    ErrorCamposVacios
  | AdvertenciaAnio
  | LibroAgregado pystr pystr pystr
  | ErrorInsertar pyerr
  | BibliotecaVacia
  | Tabla "fila list"
  | ErrorIdVacio
  | NoEncontrado pystr
  | YaLeido
  | MarcadoLeido pystr json
  | ErrorActualizar pyerr
  | Eliminado pystr json
  | NoSePudoEliminar
  | ErrorEliminar pyerr
  | Despedida
  | OpcionNoValida

record world =
  db :: "pystr \<rightharpoonup> rval"
  cmds :: "cmd list"
  out :: "msg list"

definition imprimir :: "msg \<Rightarrow> world \<Rightarrow> world" where
  "imprimir m w = w\<lparr>out := out w @ [m]\<rparr>"

definition sent :: "cmd \<Rightarrow> world \<Rightarrow> world" where
  "sent c w = w\<lparr>cmds := cmds w @ [c]\<rparr>"

definition redis_set :: "pystr \<Rightarrow> pystr \<Rightarrow> world \<Rightarrow> world" where
  "redis_set k v w = (sent (SET k v) w)\<lparr>db := (db w)(k \<mapsto> RString v)\<rparr>"

definition redis_get :: "pystr \<Rightarrow> world \<Rightarrow> (pyerr + pystr option) \<times> world" where
  "redis_get k w =
     (case db w k of
        None \<Rightarrow> (Inr None, sent (GET k) w)
      | Some (RString v) \<Rightarrow> (Inr (Some v), sent (GET k) w)
      | Some (RSet ms) \<Rightarrow> (Inl ResponseError, sent (GET k) w))"

definition redis_mget :: "pystr list \<Rightarrow> world \<Rightarrow> pystr option list \<times> world" where
  "redis_mget ks w =
     (map (\<lambda>k. case db w k of Some (RString v) \<Rightarrow> Some v | _ \<Rightarrow> None) ks, sent (MGET ks) w)"

definition redis_delete :: "pystr \<Rightarrow> world \<Rightarrow> nat \<times> world" where
  "redis_delete k w =
     (case db w k of
        None \<Rightarrow> (0, sent (DEL k) w)
      | Some _ \<Rightarrow> (1, (sent (DEL k) w)\<lparr>db := (db w)(k := None)\<rparr>))"

definition redis_smembers :: "pystr \<Rightarrow> world \<Rightarrow> (pyerr + pystr list) \<times> world" where
  "redis_smembers k w =
     (case db w k of
        None \<Rightarrow> (Inr [], sent (SMEMBERS k) w)
      | Some (RSet ms) \<Rightarrow> (Inr ms, sent (SMEMBERS k) w)
      | Some (RString v) \<Rightarrow> (Inl ResponseError, sent (SMEMBERS k) w))"

definition redis_sadd :: "pystr \<Rightarrow> pystr \<Rightarrow> world \<Rightarrow> (pyerr + nat) \<times> world" where
  "redis_sadd k m w =
     (case db w k of
        None \<Rightarrow> (Inr 1, (sent (SADD k m) w)\<lparr>db := (db w)(k \<mapsto> RSet [m])\<rparr>)
      | Some (RSet ms) \<Rightarrow>
          if m \<in> set ms then (Inr 0, sent (SADD k m) w)
          else (Inr 1, (sent (SADD k m) w)\<lparr>db := (db w)(k \<mapsto> RSet (ms @ [m]))\<rparr>)
      | Some (RString v) \<Rightarrow> (Inl ResponseError, sent (SADD k m) w))"

text \<open>Redis removes a set when its last member is removed.\<close>

definition redis_srem :: "pystr \<Rightarrow> pystr \<Rightarrow> world \<Rightarrow> (pyerr + nat) \<times> world" where
  "redis_srem k m w =
     (case db w k of
        None \<Rightarrow> (Inr 0, sent (SREM k m) w)
      | Some (RSet ms) \<Rightarrow>
          if m \<in> set ms then
            (Inr 1, (sent (SREM k m) w)\<lparr>db :=
               (if removeAll m ms = [] then (db w)(k := None)
                else (db w)(k \<mapsto> RSet (removeAll m ms)))\<rparr>)
          else (Inr 0, sent (SREM k m) w)
      | Some (RString v) \<Rightarrow> (Inl ResponseError, sent (SREM k m) w))"

text \<open>redis-py sends a \<^verbatim>\<open>str\<close> as it is and an \<^verbatim>\<open>int\<close> in decimal; it refuses
  \<^verbatim>\<open>None\<close>, a \<^verbatim>\<open>bool\<close>, a list and a dict with \<^verbatim>\<open>DataError\<close>.\<close>

definition redis_encode :: "json \<Rightarrow> pyerr + pystr" where
  "redis_encode j =
     (case j of JStr s \<Rightarrow> Inr s | JInt i \<Rightarrow> Inr (int_repr i) | _ \<Rightarrow> Inl DataError)"

section \<open>The operations of \<^verbatim>\<open>Taller5.py\<close>\<close>

definition KEY_PREFIX :: pystr where
  "KEY_PREFIX = ascii ''libro:''"

definition ALL_BOOKS_KEY :: pystr where
  "ALL_BOOKS_KEY = ascii ''libros:ids''"

subsection \<open>\<^verbatim>\<open>agregar_libro\<close>\<close>

text \<open>
  The lines the user types are arguments, in the order the program asks for them, and so
  is the identifier \<^verbatim>\<open>str(uuid4())\<close>. Lines 57 to 63 read the year:
  \<^verbatim>\<open>anio = int(anio) if anio.isdigit() else None\<close>, with a warning when \<^verbatim>\<open>int\<close> raises
  \<^verbatim>\<open>ValueError\<close>.
\<close>

definition leer_anio :: "ucd \<Rightarrow> pystr \<Rightarrow> int option \<times> msg list" where
  "leer_anio u anio =
     (if py_isdigit u anio then
        (case py_int u anio of
           Some n \<Rightarrow> (Some n, [])
         | None \<Rightarrow> (None, [AdvertenciaAnio]))
      else (None, []))"

definition nuevo_libro :: "pystr \<Rightarrow> pystr \<Rightarrow> pystr \<Rightarrow> int option \<Rightarrow> pystr \<Rightarrow> json" where
  "nuevo_libro libro_id titulo autor anio genero =
     JObj [(ascii ''id'', JStr libro_id),
           (ascii ''titulo'', JStr titulo),
           (ascii ''autor'', JStr autor),
           (ascii ''anio_publicacion'', (case anio of None \<Rightarrow> JNull | Some n \<Rightarrow> JInt n)),
           (ascii ''genero'', (if genero \<noteq> [] then JStr genero else JNull)),
           (ascii ''leido'', JBool False)]"

definition agregar_libro ::
  "ucd \<Rightarrow> pystr \<Rightarrow> pystr \<Rightarrow> pystr \<Rightarrow> pystr \<Rightarrow> pystr \<Rightarrow> world \<Rightarrow> world" where
  "agregar_libro u titulo_in autor_in anio_in genero_in libro_id w =
     (let titulo = py_strip titulo_in; autor = py_strip autor_in in
      if titulo = [] \<or> autor = [] then imprimir ErrorCamposVacios w
      else
        let (anio, avisos) = leer_anio u anio_in;
            w1 = w\<lparr>out := out w @ avisos\<rparr>;
            genero = py_strip genero_in;
            libro_json = json_dumps (nuevo_libro libro_id titulo autor anio genero);
            key = KEY_PREFIX @ libro_id;
            w2 = redis_set key libro_json w1
        in case redis_sadd ALL_BOOKS_KEY libro_id w2 of
             (Inl e, w3) \<Rightarrow> imprimir (ErrorInsertar e) w3
           | (Inr n, w3) \<Rightarrow> imprimir (LibroAgregado titulo autor (last5 libro_id)) w3)"

subsection \<open>\<^verbatim>\<open>buscar_libro_por_id_parcial\<close>\<close>

text \<open>
  \<^verbatim>\<open>next((_id for _id in all_ids if _id.endswith(id_parcial)), None)\<close> is the first match
  of the enumeration, and \<^verbatim>\<open>if not libro_id_completo\<close> also refuses an empty identifier;
  \<^verbatim>\<open>if libro_json\<close> refuses a missing and an empty value. The result is the pair
  \<^verbatim>\<open>(libro, key)\<close>, \<^verbatim>\<open>(None, None)\<close> being \<open>(JNull, None)\<close>.
\<close>

definition buscar_libro_por_id_parcial ::
  "pystr \<Rightarrow> world \<Rightarrow> (pyerr + json \<times> pystr option) \<times> world" where
  "buscar_libro_por_id_parcial id_parcial w =
     (case redis_smembers ALL_BOOKS_KEY w of
        (Inl e, w1) \<Rightarrow> (Inl e, w1)
      | (Inr all_ids, w1) \<Rightarrow>
          (case find (\<lambda>i. endswith i id_parcial) all_ids of
             None \<Rightarrow> (Inr (JNull, None), w1)
           | Some libro_id_completo \<Rightarrow>
               if libro_id_completo = [] then (Inr (JNull, None), w1)
               else
                 let key = KEY_PREFIX @ libro_id_completo in
                 (case redis_get key w1 of
                    (Inl e, w2) \<Rightarrow> (Inl e, w2)
                  | (Inr None, w2) \<Rightarrow> (Inr (JNull, None), w2)
                  | (Inr (Some libro_json), w2) \<Rightarrow>
                      if libro_json = [] then (Inr (JNull, None), w2)
                      else
                        (case json_loads libro_json of
                           Inl e \<Rightarrow> (Inl e, w2)
                         | Inr libro \<Rightarrow> (Inr (libro, Some key), w2)))))"

subsection \<open>\<^verbatim>\<open>listar_libros\<close>\<close>

text \<open>Lines 126 to 129: every value that is present and not empty is decoded; the first
  value that does not decode raises.\<close>

fun cargar :: "pystr option list \<Rightarrow> pyerr + json list" where
  "cargar [] = Inr []"
| "cargar (None # vs) = cargar vs"
| "cargar (Some v # vs) =
     (if v = [] then cargar vs
      else
        (case json_loads v of
           Inl e \<Rightarrow> Inl e
         | Inr libro \<Rightarrow> (case cargar vs of Inl e \<Rightarrow> Inl e | Inr libros \<Rightarrow> Inr (libro # libros))))"

text \<open>Lines 120 to 134: the list \<^verbatim>\<open>libros\<close> after \<^verbatim>\<open>libros.reverse()\<close>.\<close>

definition libros_recuperados :: "world \<Rightarrow> (pyerr + json list) \<times> world" where
  "libros_recuperados w =
     (case redis_smembers ALL_BOOKS_KEY w of
        (Inl e, w1) \<Rightarrow> (Inl e, w1)
      | (Inr all_ids, w1) \<Rightarrow>
          let all_keys = map (\<lambda>i. KEY_PREFIX @ i) all_ids;
              (libros_json_list, w2) = redis_mget all_keys w1
          in (case cargar libros_json_list of
                Inl e \<Rightarrow> (Inl e, w2)
              | Inr libros \<Rightarrow> (Inr (rev libros), w2)))"

text \<open>
  Lines 146 to 150, one row. A slice is taken of a \<^verbatim>\<open>str\<close> (any other value fails in
  the slice or in the format that follows), and the year is formatted with a width, which
  a list and a dict refuse.
\<close>

definition campo_str :: "json \<Rightarrow> pystr \<Rightarrow> pyerr + pystr" where
  "campo_str libro k =
     (case subscript libro k of
        Inl e \<Rightarrow> Inl e
      | Inr (JStr s) \<Rightarrow> Inr s
      | Inr _ \<Rightarrow> Inl TypeError)"

definition celda_anio :: "json \<Rightarrow> pyerr + json" where
  "celda_anio libro =
     (case subscript libro (ascii ''anio_publicacion'') of
        Inl e \<Rightarrow> Inl e
      | Inr a \<Rightarrow>
          if \<not> truthy a then Inr (JStr (ascii ''N/A''))
          else (case a of JArr _ \<Rightarrow> Inl TypeError | JObj _ \<Rightarrow> Inl TypeError | _ \<Rightarrow> Inr a))"

definition fila_de :: "json \<Rightarrow> pyerr + fila" where
  "fila_de libro =
     (case dict_get libro (ascii ''leido'') (JBool False) of
        Inl e \<Rightarrow> Inl e
      | Inr leido \<Rightarrow>
     (case campo_str libro (ascii ''id'') of
        Inl e \<Rightarrow> Inl e
      | Inr i \<Rightarrow>
     (case campo_str libro (ascii ''titulo'') of
        Inl e \<Rightarrow> Inl e
      | Inr t \<Rightarrow>
     (case campo_str libro (ascii ''autor'') of
        Inl e \<Rightarrow> Inl e
      | Inr a \<Rightarrow>
     (case celda_anio libro of
        Inl e \<Rightarrow> Inl e
      | Inr y \<Rightarrow> Inr (Fila (last5 i) (take 35 t) (take 25 a) y (truthy leido)))))))"

text \<open>The rows printed, and the exception that stopped the loop, if any.\<close>

fun filas :: "json list \<Rightarrow> fila list \<times> pyerr option" where
  "filas [] = ([], None)"
| "filas (libro # libros) =
     (case fila_de libro of
        Inl e \<Rightarrow> ([], Some e)
      | Inr f \<Rightarrow> (case filas libros of (fs, r) \<Rightarrow> (f # fs, r)))"

text \<open>\<^verbatim>\<open>listar_libros\<close> has no \<^verbatim>\<open>try\<close>: an exception leaves the function (\<open>Some e\<close>).\<close>

definition listar_libros :: "world \<Rightarrow> pyerr option \<times> world" where
  "listar_libros w =
     (case libros_recuperados w of
        (Inl e, w1) \<Rightarrow> (Some e, w1)
      | (Inr libros, w1) \<Rightarrow>
          if libros = [] then (None, imprimir BibliotecaVacia w1)
          else (case filas libros of (fs, r) \<Rightarrow> (r, imprimir (Tabla fs) w1)))"

subsection \<open>\<^verbatim>\<open>actualizar_libro\<close> and \<^verbatim>\<open>marcar_como_leido\<close>\<close>

text \<open>\<^verbatim>\<open>libro.update(kwargs)\<close>, then \<^verbatim>\<open>redis_client.set(key, json.dumps(libro))\<close>. The dict is
  changed in place: the model returns it.\<close>

definition actualizar_libro ::
  "json \<Rightarrow> pystr option \<Rightarrow> (pystr \<times> json) list \<Rightarrow> world \<Rightarrow> (pyerr + json) \<times> world" where
  "actualizar_libro libro key kwargs w =
     (case libro of
        JObj d \<Rightarrow>
          let libro' = JObj (foldl (\<lambda>d' kv. dict_set d' (fst kv) (snd kv)) d kwargs);
              libro_json = json_dumps libro'
          in (case key of
                None \<Rightarrow> (Inl DataError, w)
              | Some k \<Rightarrow> (Inr libro', redis_set k libro_json w))
      | _ \<Rightarrow> (Inl AttributeError, w))"

text \<open>Lines 171 to 187, the \<^verbatim>\<open>try\<close> block: every exception is caught and printed.\<close>

definition marcar_encontrado :: "pystr \<Rightarrow> world \<Rightarrow> world" where
  "marcar_encontrado id_parcial w =
     (case buscar_libro_por_id_parcial id_parcial w of
        (Inl e, w1) \<Rightarrow> imprimir (ErrorActualizar e) w1
      | (Inr (libro, key), w1) \<Rightarrow>
          if \<not> truthy libro then imprimir (NoEncontrado id_parcial) w1
          else
            (case dict_get libro (ascii ''leido'') (JBool False) of
               Inl e \<Rightarrow> imprimir (ErrorActualizar e) w1
             | Inr leido \<Rightarrow>
                 if truthy leido then imprimir YaLeido w1
                 else
                   (case actualizar_libro libro key [(ascii ''leido'', JBool True)] w1 of
                      (Inl e, w2) \<Rightarrow> imprimir (ErrorActualizar e) w2
                    | (Inr libro', w2) \<Rightarrow>
                        (case subscript libro' (ascii ''titulo'') of
                           Inl e \<Rightarrow> imprimir (ErrorActualizar e) w2
                         | Inr t \<Rightarrow> imprimir (MarcadoLeido id_parcial t) w2))))"

definition marcar_como_leido :: "pystr \<Rightarrow> world \<Rightarrow> pyerr option \<times> world" where
  "marcar_como_leido id_in w =
     (case listar_libros w of
        (Some e, w1) \<Rightarrow> (Some e, w1)
      | (None, w1) \<Rightarrow>
          let id_parcial = py_strip id_in in
          if id_parcial = [] then (None, imprimir ErrorIdVacio w1)
          else (None, marcar_encontrado id_parcial w1))"

subsection \<open>\<^verbatim>\<open>eliminar_libro\<close>\<close>

text \<open>Lines 209 to 214: what follows the reply to \<^verbatim>\<open>DEL\<close>.\<close>

definition eliminar_indice :: "nat \<Rightarrow> json \<Rightarrow> pystr \<Rightarrow> world \<Rightarrow> world" where
  "eliminar_indice deleted_count libro id_parcial w =
     (if deleted_count > 0 then
        (case subscript libro (ascii ''id'') of
           Inl e \<Rightarrow> imprimir (ErrorEliminar e) w
         | Inr i \<Rightarrow>
             (case redis_encode i of
                Inl e \<Rightarrow> imprimir (ErrorEliminar e) w
              | Inr m \<Rightarrow>
                  (case redis_srem ALL_BOOKS_KEY m w of
                     (Inl e, w1) \<Rightarrow> imprimir (ErrorEliminar e) w1
                   | (Inr n, w1) \<Rightarrow>
                       (case subscript libro (ascii ''titulo'') of
                          Inl e \<Rightarrow> imprimir (ErrorEliminar e) w1
                        | Inr t \<Rightarrow> imprimir (Eliminado id_parcial t) w1))))
      else imprimir NoSePudoEliminar w)"

text \<open>Lines 199 to 217, the \<^verbatim>\<open>try\<close> block.\<close>

definition eliminar_encontrado :: "pystr \<Rightarrow> world \<Rightarrow> world" where
  "eliminar_encontrado id_parcial w =
     (case buscar_libro_por_id_parcial id_parcial w of
        (Inl e, w1) \<Rightarrow> imprimir (ErrorEliminar e) w1
      | (Inr (libro, key), w1) \<Rightarrow>
          if \<not> truthy libro then imprimir (NoEncontrado id_parcial) w1
          else
            (case key of
               None \<Rightarrow> imprimir (ErrorEliminar DataError) w1
             | Some k \<Rightarrow>
                 (case redis_delete k w1 of
                    (deleted_count, w2) \<Rightarrow> eliminar_indice deleted_count libro id_parcial w2)))"

definition eliminar_libro :: "pystr \<Rightarrow> world \<Rightarrow> pyerr option \<times> world" where
  "eliminar_libro id_in w =
     (case listar_libros w of
        (Some e, w1) \<Rightarrow> (Some e, w1)
      | (None, w1) \<Rightarrow>
          let id_parcial = py_strip id_in in
          if id_parcial = [] then (None, imprimir ErrorIdVacio w1)
          else (None, eliminar_encontrado id_parcial w1))"

text \<open>Lines 206 to 214 on their own: \<^verbatim>\<open>DEL\<close> on the key that the search returned, on the
  store as it is when the command arrives, and what follows the reply.\<close>

definition eliminar_clave :: "json \<Rightarrow> pystr option \<Rightarrow> pystr \<Rightarrow> world \<Rightarrow> world" where
  "eliminar_clave libro key id_parcial w =
     (case key of
        None \<Rightarrow> imprimir (ErrorEliminar DataError) w
      | Some k \<Rightarrow>
          (case redis_delete k w of
             (deleted_count, w2) \<Rightarrow> eliminar_indice deleted_count libro id_parcial w2))"

text \<open>
  The store is a server that other clients use too: between two commands of this program
  they may change it. \<open>eliminar_libro_entre otros\<close> is \<^verbatim>\<open>eliminar_libro\<close> when the other
  clients do \<open>otros\<close> to the store after the reply to \<^verbatim>\<open>GET\<close> (line 109) and before \<^verbatim>\<open>DEL\<close>
  (line 207); with \<open>otros\<close> the identity it is \<open>eliminar_libro\<close>. This is the only way in
  which \<^verbatim>\<open>DEL\<close> can report no key deleted (lines 213 and 214).
\<close>

definition eliminar_encontrado_entre :: "(world \<Rightarrow> world) \<Rightarrow> pystr \<Rightarrow> world \<Rightarrow> world" where
  "eliminar_encontrado_entre otros id_parcial w =
     (case buscar_libro_por_id_parcial id_parcial w of
        (Inl e, w1) \<Rightarrow> imprimir (ErrorEliminar e) w1
      | (Inr (libro, key), w1) \<Rightarrow>
          if \<not> truthy libro then imprimir (NoEncontrado id_parcial) w1
          else eliminar_clave libro key id_parcial (otros w1))"

definition eliminar_libro_entre ::
  "(world \<Rightarrow> world) \<Rightarrow> pystr \<Rightarrow> world \<Rightarrow> pyerr option \<times> world" where
  "eliminar_libro_entre otros id_in w =
     (case listar_libros w of
        (Some e, w1) \<Rightarrow> (Some e, w1)
      | (None, w1) \<Rightarrow>
          let id_parcial = py_strip id_in in
          if id_parcial = [] then (None, imprimir ErrorIdVacio w1)
          else (None, eliminar_encontrado_entre otros id_parcial w1))"

subsection \<open>One turn of the menu loop of \<^verbatim>\<open>main\<close>\<close>

datatype opcion =
    Agregar pystr pystr pystr pystr pystr
  | Listar
  | MarcarLeido pystr
  | Eliminar pystr
  | Salir
  | Otra

definition main_opcion :: "ucd \<Rightarrow> opcion \<Rightarrow> world \<Rightarrow> pyerr option \<times> world" where
  "main_opcion u opc w =
     (case opc of
        Agregar titulo autor anio genero libro_id \<Rightarrow>
          (None, agregar_libro u titulo autor anio genero libro_id w)
      | Listar \<Rightarrow> listar_libros w
      | MarcarLeido id_in \<Rightarrow> marcar_como_leido id_in w
      | Eliminar id_in \<Rightarrow> eliminar_libro id_in w
      | Salir \<Rightarrow> (None, imprimir Despedida w)
      | Otra \<Rightarrow> (None, imprimir OpcionNoValida w))"

section \<open>Well-formed texts, records and stores\<close>

text \<open>
  Python joins a high surrogate escape with the low surrogate escape that follows it, so
  a string in which a high surrogate (\<open>D800..DBFF\<close>) stands directly before a low one
  (\<open>DC00..DFFF\<close>) is not decoded as it was encoded. No text has such a pair: a surrogate
  is not a character. \<open>py_text\<close> holds of the strings without one whose elements are
  code points.
\<close>

definition is_high :: "codepoint \<Rightarrow> bool" where
  "is_high c = (0xD800 \<le> c \<and> c \<le> 0xDBFF)"

definition is_low :: "codepoint \<Rightarrow> bool" where
  "is_low c = (0xDC00 \<le> c \<and> c \<le> 0xDFFF)"

fun no_surrogate_pair :: "pystr \<Rightarrow> bool" where
  "no_surrogate_pair [] = True"
| "no_surrogate_pair [c] = True"
| "no_surrogate_pair (c # d # s) = (\<not> (is_high c \<and> is_low d) \<and> no_surrogate_pair (d # s))"

definition py_text :: "pystr \<Rightarrow> bool" where
  "py_text s = (list_all (\<lambda>c. c < 0x110000) s \<and> no_surrogate_pair s)"

text \<open>A flat dict: distinct keys, and every value \<^verbatim>\<open>None\<close>, a \<^verbatim>\<open>bool\<close>, an \<^verbatim>\<open>int\<close> or
  a \<^verbatim>\<open>str\<close>.\<close>

definition scalar_ok :: "json \<Rightarrow> bool" where
  "scalar_ok v =
     (case v of JStr s \<Rightarrow> py_text s | JArr _ \<Rightarrow> False | JObj _ \<Rightarrow> False | _ \<Rightarrow> True)"

definition flat_ok :: "(pystr \<times> json) list \<Rightarrow> bool" where
  "flat_ok d =
     (distinct (map fst d) \<and> list_all (\<lambda>kv. py_text (fst kv) \<and> scalar_ok (snd kv)) d)"

text \<open>A book record, as the data model has it: the six fields in the order
  \<^verbatim>\<open>agregar_libro\<close> writes them, the identifier, the title and the author a \<^verbatim>\<open>str\<close>, the year
  an \<^verbatim>\<open>int\<close> or \<^verbatim>\<open>None\<close>, the genre a \<^verbatim>\<open>str\<close> or \<^verbatim>\<open>None\<close>, the read flag a \<^verbatim>\<open>bool\<close>.\<close>

definition CAMPOS :: "pystr list" where
  "CAMPOS = [ascii ''id'', ascii ''titulo'', ascii ''autor'', ascii ''anio_publicacion'',
             ascii ''genero'', ascii ''leido'']"

definition is_str :: "json \<Rightarrow> bool" where
  "is_str v = (case v of JStr s \<Rightarrow> True | _ \<Rightarrow> False)"

definition is_bool :: "json \<Rightarrow> bool" where
  "is_bool v = (case v of JBool b \<Rightarrow> True | _ \<Rightarrow> False)"

definition is_int_or_none :: "json \<Rightarrow> bool" where
  "is_int_or_none v = (case v of JInt i \<Rightarrow> True | JNull \<Rightarrow> True | _ \<Rightarrow> False)"

definition is_str_or_none :: "json \<Rightarrow> bool" where
  "is_str_or_none v = (case v of JStr s \<Rightarrow> True | JNull \<Rightarrow> True | _ \<Rightarrow> False)"

definition is_libro :: "json \<Rightarrow> bool" where
  "is_libro j =
     (case j of
        JObj d \<Rightarrow>
          map fst d = CAMPOS \<and> flat_ok d
          \<and> list_all2 (\<lambda>p v. p v)
               [is_str, is_str, is_str, is_int_or_none, is_str_or_none, is_bool] (map snd d)
      | _ \<Rightarrow> False)"

text \<open>The token sequence of a flat dict, and what may follow a number.\<close>

fun item_tokens :: "(pystr \<times> json) list \<Rightarrow> token list" where
  "item_tokens [] = []"
| "item_tokens [(k, v)] = [TScalar (JStr k), TColon, TScalar v]"
| "item_tokens ((k, v) # kv # d) =
     [TScalar (JStr k), TColon, TScalar v, TComma] @ item_tokens (kv # d)"

definition tappend :: "token list \<Rightarrow> pyerr + token list \<Rightarrow> pyerr + token list" where
  "tappend ts r = (case r of Inl e \<Rightarrow> Inl e | Inr us \<Rightarrow> Inr (ts @ us))"

definition delim :: "pystr \<Rightarrow> bool" where
  "delim r = (\<not> digit_follows r \<and> \<not> float_tail r)"

text \<open>
  A stored value is the record of the identifier \<open>i\<close> when it decodes to a book record
  whose \<^verbatim>\<open>id\<close> is \<open>i\<close>. In a well-formed store the index holds a set of distinct, non-empty
  identifiers, and the key of each holds such a record or nothing (the program tolerates
  an identifier without a value).
\<close>

definition registro_ok :: "pystr \<Rightarrow> pystr \<Rightarrow> bool" where
  "registro_ok i v =
     (case json_loads v of
        Inr j \<Rightarrow> is_libro j \<and> subscript j (ascii ''id'') = Inr (JStr i)
      | Inl e \<Rightarrow> False)"

definition entrada_ok :: "world \<Rightarrow> pystr \<Rightarrow> bool" where
  "entrada_ok w i =
     (i \<noteq> [] \<and>
      (case db w (KEY_PREFIX @ i) of
         None \<Rightarrow> True
       | Some (RString v) \<Rightarrow> registro_ok i v
       | Some (RSet ms) \<Rightarrow> False))"

definition members :: "world \<Rightarrow> pystr list option" where
  "members w =
     (case db w ALL_BOOKS_KEY of
        None \<Rightarrow> Some []
      | Some (RSet ms) \<Rightarrow> Some ms
      | Some (RString v) \<Rightarrow> None)"

definition store_ok :: "world \<Rightarrow> bool" where
  "store_ok w =
     (case members w of
        None \<Rightarrow> False
      | Some ids \<Rightarrow> distinct ids \<and> list_all (entrada_ok w) ids)"

text \<open>
  The layout of the store: a command on a string is on a key \<^verbatim>\<open>libro:<id>\<close>, a command on a
  set is on the key \<^verbatim>\<open>libros:ids\<close>. \<open>nuevos w w'\<close> are the commands sent between the states
  \<open>w\<close> and \<open>w'\<close>.
\<close>

definition cmd_ok :: "cmd \<Rightarrow> bool" where
  "cmd_ok c =
     (case c of
        SET k v \<Rightarrow> starts_with k (ascii ''libro:'')
      | GET k \<Rightarrow> starts_with k (ascii ''libro:'')
      | DEL k \<Rightarrow> starts_with k (ascii ''libro:'')
      | MGET ks \<Rightarrow> list_all (\<lambda>k. starts_with k (ascii ''libro:'')) ks
      | SADD k m \<Rightarrow> k = ascii ''libros:ids''
      | SMEMBERS k \<Rightarrow> k = ascii ''libros:ids''
      | SREM k m \<Rightarrow> k = ascii ''libros:ids'')"

definition nuevos :: "world \<Rightarrow> world \<Rightarrow> cmd list" where
  "nuevos w w' = drop (length (cmds w)) (cmds w')"

definition is_write :: "cmd \<Rightarrow> bool" where
  "is_write c =
     (case c of SET k v \<Rightarrow> True | SADD k m \<Rightarrow> True | DEL k \<Rightarrow> True | SREM k m \<Rightarrow> True
      | _ \<Rightarrow> False)"

text \<open>\<open>extiende w w'\<close>: the state \<open>w'\<close> has the commands of \<open>w\<close> and, after them, only
  commands that follow the layout.\<close>

definition extiende :: "world \<Rightarrow> world \<Rightarrow> bool" where
  "extiende w w' = (\<exists>cs. cmds w' = cmds w @ cs \<and> list_all cmd_ok cs)"

text \<open>What \<^verbatim>\<open>MGET\<close> answers for the keys of the identifiers \<open>ids\<close>, and a record after
  \<^verbatim>\<open>libro.update(leido=True)\<close>.\<close>

definition valores :: "world \<Rightarrow> pystr list \<Rightarrow> pystr option list" where
  "valores w ids =
     map (\<lambda>i. case db w (KEY_PREFIX @ i) of Some (RString v) \<Rightarrow> Some v | _ \<Rightarrow> None) ids"

definition marcado :: "json \<Rightarrow> json" where
  "marcado j = (case j of JObj d \<Rightarrow> JObj (dict_set d (ascii ''leido'') (JBool True)) | _ \<Rightarrow> j)"

text \<open>The empty store, before anything was printed or sent.\<close>

definition mundo_vacio :: world where
  "mundo_vacio = \<lparr> db = Map.empty, cmds = [], out = [] \<rparr>"

text \<open>Example stores: one book, two books whose identifiers end alike, and an identifier
  whose value is gone.\<close>

definition mundo_uno :: world where
  "mundo_uno = agregar_libro ascii_ucd (ascii ''Dune'') (ascii ''Herbert'') (ascii ''1965'')
                 (ascii ''Sci-Fi'') (ascii ''ab12'') mundo_vacio"

definition mundo_dos :: world where
  "mundo_dos = agregar_libro ascii_ucd (ascii ''Emma'') (ascii ''Austen'') [] [] (ascii ''cd12'')
                 mundo_uno"

definition libro_uno :: json where
  "libro_uno = nuevo_libro (ascii ''ab12'') (ascii ''Dune'') (ascii ''Herbert'') (Some 1965)
                 (ascii ''Sci-Fi'')"

definition libro_dos :: json where
  "libro_dos = nuevo_libro (ascii ''cd12'') (ascii ''Emma'') (ascii ''Austen'') None []"

definition mundo_huerfano :: world where
  "mundo_huerfano = mundo_uno\<lparr>db := (db mundo_uno)(KEY_PREFIX @ ascii ''ab12'' := None)\<rparr>"

section \<open>The codec on flat dicts\<close>

subsection \<open>Strings\<close>

lemma hexval_hexdigit: "d < 16 \<Longrightarrow> hexval (hexdigit d) = Some d"
  by (auto simp: hexval_def hexdigit_def)

lemma hex_digits_sum:
  "((n div 4096 * 16 + n div 256 mod 16) * 16 + n div 16 mod 16) * 16 + n mod 16 = (n::nat)"
proof -
  have e2: "n div 256 = n div 16 div 16" and e3: "n div 4096 = n div 16 div 16 div 16"
    by (simp_all add: div_mult2_eq)
  have "n div 16 div 16 div 16 * 16 + n div 16 div 16 mod 16 = n div 16 div 16"
    by (rule div_mult_mod_eq)
  moreover have "n div 16 div 16 * 16 + n div 16 mod 16 = n div 16"
    by (rule div_mult_mod_eq)
  moreover have "n div 16 * 16 + n mod 16 = n"
    by (rule div_mult_mod_eq)
  ultimately show ?thesis
    unfolding e2 e3 by simp
qed

lemma decode_hexdigits:
  "a < 16 \<Longrightarrow> b < 16 \<Longrightarrow> c < 16 \<Longrightarrow> d < 16 \<Longrightarrow>
   decode_uXXXX (hexdigit a # hexdigit b # hexdigit c # hexdigit d # r)
     = Some (((a * 16 + b) * 16 + c) * 16 + d)"
  by (simp add: decode_uXXXX_def hexval_hexdigit)

lemma decode_hex4: "n < 65536 \<Longrightarrow> decode_uXXXX (hex4 n @ r) = Some n"
proof -
  assume n: "n < 65536"
  have a: "n div 4096 mod 16 = n div 4096" and b: "n div 4096 < 16" using n by simp_all
  have "decode_uXXXX (hex4 n @ r)
      = Some (((n div 4096 * 16 + n div 256 mod 16) * 16 + n div 16 mod 16) * 16 + n mod 16)"
    unfolding hex4_def a append_Cons append_Nil
    by (rule decode_hexdigits) (simp_all add: b)
  then show ?thesis
    by (simp only: hex_digits_sum)
qed

lemma length_hex4 [simp]: "length (hex4 n) = 4"
  by (simp add: hex4_def)

lemma drop_hex4 [simp]: "drop 4 (hex4 n @ r) = r"
  by (simp add: hex4_def)

lemma drop6_hex4 [simp]: "drop 6 (hex4 n @ r) = drop 2 r"
  by (simp add: hex4_def)

lemma scan_u_plain:
  assumes "n < 65536" and "\<not> is_high n"
  shows "scan_escape (0x75 # hex4 n @ r) = Emit n 6"
  using assms by (auto simp: scan_escape_def decode_hex4 is_high_def)

lemma scan_u_lone:
  assumes "n < 65536" and "take 2 r \<noteq> [0x5C, 0x75]"
  shows "scan_escape (0x75 # hex4 n @ r) = Emit n 6"
  using assms by (simp add: scan_escape_def decode_hex4)

lemma scan_u_other:
  assumes "n < 65536" and "decode_uXXXX (drop 2 r) = Some u" and "\<not> is_low u"
  shows "scan_escape (0x75 # hex4 n @ r) = Emit n 6"
  using assms by (auto simp: scan_escape_def decode_hex4 is_low_def)

lemma scan_u_pair:
  assumes "n < 0x100000"
  shows "scan_escape (0x75 # hex4 (0xD800 + n div 1024 mod 1024) @ [0x5C, 0x75]
            @ hex4 (0xDC00 + n mod 1024) @ r) = Emit (0x10000 + n) 12"
proof -
  have d: "n div 1024 mod 1024 = n div 1024" using assms by simp
  have hi: "0xD800 + n div 1024 < 65536" using assms by simp
  have lo: "0xDC00 + n mod 1024 < 65536" by simp
  have b1: "n div 1024 \<le> 1023" using assms by simp
  have "n mod 1024 < 1024" by (rule mod_less_divisor) simp
  then have b2: "n mod 1024 \<le> 1023" by simp
  have "n div 1024 * 1024 + n mod 1024 = n" by (rule div_mult_mod_eq)
  then show ?thesis
    using b1 b2 by (simp add: scan_escape_def decode_hex4[OF hi] decode_hex4[OF lo] d)
qed

text \<open>One character: the scanner reads back what the encoder wrote, unless the
  character is a high surrogate and a low surrogate escape follows.\<close>

lemma scanstring_escape_char:
  assumes c: "c < 0x110000"
    and nx: "is_high c \<Longrightarrow>
             take 2 r \<noteq> [0x5C, 0x75] \<or> (\<exists>u. decode_uXXXX (drop 2 r) = Some u \<and> \<not> is_low u)"
  shows "py_scanstring chunks (escape_char c @ r) = py_scanstring (chunks @ [c]) r"
proof -
  consider (short) "c \<in> {0x5C, 0x22, 0x08, 0x0C, 0x0A, 0x0D, 0x09}"
    | (plain) "c \<notin> {0x5C, 0x22}" "0x20 \<le> c" "c \<le> 0x7E"
    | (bmp) "c \<notin> {0x08, 0x0C, 0x0A, 0x0D, 0x09}" "c < 0x20 \<or> 0x7E < c" "c < 0x10000"
    | (astral) "0x10000 \<le> c"
    by fastforce
  then show ?thesis
  proof cases
    case short
    then show ?thesis
      by (auto simp: escape_char_def scan_chunk_def scan_escape_def backslash_def)
  next
    case plain
    then show ?thesis
      by (auto simp: escape_char_def scan_chunk_def)
  next
    case bmp
    then have e: "escape_char c = 0x5C # 0x75 # hex4 c"
      by (auto simp: escape_char_def)
    have "scan_escape (0x75 # hex4 c @ r) = Emit c 6"
    proof (cases "is_high c")
      case False
      with bmp show ?thesis by (simp add: scan_u_plain)
    next
      case True
      from nx[OF this] show ?thesis
      proof
        assume "take 2 r \<noteq> [0x5C, 0x75]"
        with bmp show ?thesis by (simp add: scan_u_lone)
      next
        assume "\<exists>u. decode_uXXXX (drop 2 r) = Some u \<and> \<not> is_low u"
        with bmp show ?thesis by (auto simp: scan_u_other)
      qed
    qed
    then show ?thesis
      by (simp add: e scan_chunk_def)
  next
    case astral
    define n where "n = c - 0x10000"
    have n: "n < 0x100000" and cn: "c = 0x10000 + n"
      using c astral by (simp_all add: n_def)
    have e: "escape_char c = 0x5C # 0x75 # hex4 (0xD800 + n div 1024 mod 1024) @ [0x5C, 0x75]
                @ hex4 (0xDC00 + n mod 1024)"
      using astral by (simp add: escape_char_def n_def Let_def)
    show ?thesis
      using scan_u_pair[OF n, of r]
      by (simp add: e scan_chunk_def cn[symmetric])
  qed
qed

lemma next_escape_not_low:
  assumes d: "d < 0x110000" and nl: "\<not> is_low d"
  shows "take 2 (escape_char d @ r) \<noteq> [0x5C, 0x75]
         \<or> (\<exists>u. decode_uXXXX (drop 2 (escape_char d @ r)) = Some u \<and> \<not> is_low u)"
proof -
  consider (short) "d \<in> {0x5C, 0x22, 0x08, 0x0C, 0x0A, 0x0D, 0x09}"
    | (plain) "d \<notin> {0x5C, 0x22}" "0x20 \<le> d" "d \<le> 0x7E"
    | (bmp) "d \<notin> {0x08, 0x0C, 0x0A, 0x0D, 0x09}" "d < 0x20 \<or> 0x7E < d" "d < 0x10000"
    | (astral) "0x10000 \<le> d"
    by fastforce
  then show ?thesis
  proof cases
    case short
    then have "\<exists>x. escape_char d = [0x5C, x] \<and> x \<noteq> 0x75"
      by (elim insertE emptyE) (simp_all add: escape_char_def)
    then obtain x where "escape_char d = [0x5C, x]" and "x \<noteq> 0x75" by blast
    then have "take 2 (escape_char d @ r) \<noteq> [0x5C, 0x75]" by simp
    then show ?thesis by (rule disjI1)
  next
    case plain
    then have "escape_char d = [d]" and "d \<noteq> 0x5C"
      by (simp_all add: escape_char_def)
    then have "take 2 (escape_char d @ r) \<noteq> [0x5C, 0x75]" by simp
    then show ?thesis by (rule disjI1)
  next
    case bmp
    then have e: "escape_char d = 0x5C # 0x75 # hex4 d"
      by (auto simp: escape_char_def)
    have "decode_uXXXX (drop 2 (escape_char d @ r)) = Some d"
      using bmp by (simp add: e decode_hex4)
    with nl show ?thesis by blast
  next
    case astral
    define n where "n = d - 0x10000"
    have n: "n < 0x100000" using d astral by (simp add: n_def)
    have e: "escape_char d = 0x5C # 0x75 # hex4 (0xD800 + n div 1024 mod 1024) @ [0x5C, 0x75]
                @ hex4 (0xDC00 + n mod 1024)"
      using astral by (simp add: escape_char_def n_def Let_def)
    have dv: "n div 1024 mod 1024 = n div 1024" using n by simp
    have hi: "0xD800 + n div 1024 < 65536" using n by simp
    have b1: "n div 1024 \<le> 1023" using n by simp
    have "decode_uXXXX (drop 2 (escape_char d @ r)) = Some (0xD800 + n div 1024)"
      by (simp add: e dv decode_hex4[OF hi])
    moreover have "\<not> is_low (0xD800 + n div 1024)"
      using b1 by (simp add: is_low_def)
    ultimately show ?thesis by blast
  qed
qed

lemma scanstring_body:
  "py_text s \<Longrightarrow>
   py_scanstring chunks (concat (map escape_char s) @ 0x22 # r) = Some (chunks @ s, r)"
proof (induction s arbitrary: chunks rule: no_surrogate_pair.induct)
  case 1
  show ?case by (simp add: scan_chunk_def)
next
  case (2 c)
  then have c: "c < 0x110000" by (simp add: py_text_def)
  have "py_scanstring chunks (escape_char c @ 0x22 # r) = py_scanstring (chunks @ [c]) (0x22 # r)"
    by (rule scanstring_escape_char[OF c]) simp
  then show ?case by (simp add: scan_chunk_def)
next
  case (3 c d s)
  then have c: "c < 0x110000" and d: "d < 0x110000"
    and pair: "is_high c \<Longrightarrow> \<not> is_low d" and rest: "py_text (d # s)"
    by (simp_all add: py_text_def)
  let ?r = "escape_char d @ concat (map escape_char s) @ 0x22 # r"
  have "py_scanstring chunks (escape_char c @ ?r) = py_scanstring (chunks @ [c]) ?r"
    by (rule scanstring_escape_char[OF c]) (rule next_escape_not_low[OF d pair])
  also have "\<dots> = Some ((chunks @ [c]) @ d # s, r)"
    using "3.IH"[OF rest, of "chunks @ [c]"] by simp
  finally show ?case by simp
qed

subsection \<open>Integers\<close>

lemma dec_digits_all: "list_all is_digit09 (dec_digits n)"
proof (induction n rule: dec_digits.induct)
  case (1 n)
  show ?case
  proof (cases "n < 10")
    case True
    then show ?thesis by (subst dec_digits.simps) (simp add: is_digit09_def)
  next
    case False
    have "n mod 10 < 10" by (rule mod_less_divisor) simp
    then have "is_digit09 (48 + n mod 10)" by (simp add: is_digit09_def)
    with False 1 show ?thesis
      by (subst dec_digits.simps) simp
  qed
qed

lemma dec_digits_Cons: "\<exists>d t. dec_digits n = d # t \<and> (n \<noteq> 0 \<longrightarrow> d \<noteq> 48)"
proof (induction n rule: dec_digits.induct)
  case (1 n)
  show ?case
  proof (cases "n < 10")
    case True
    then show ?thesis by (subst dec_digits.simps) simp
  next
    case False
    then have "n div 10 \<noteq> 0" by simp
    with False 1 obtain d t where "dec_digits (n div 10) = d # t" and "d \<noteq> 48" by blast
    with False show ?thesis by (subst dec_digits.simps) simp
  qed
qed

lemma int_of_digits_snoc: "int_of_digits (ds @ [d]) = 10 * int_of_digits ds + (d - 48)"
  by (simp add: int_of_digits_def)

lemma int_of_dec_digits: "int_of_digits (dec_digits n) = n"
proof (induction n rule: dec_digits.induct)
  case (1 n)
  show ?case
  proof (cases "n < 10")
    case True
    then show ?thesis by (subst dec_digits.simps) (simp add: int_of_digits_def)
  next
    case False
    with 1 have "int_of_digits (dec_digits (n div 10)) = n div 10" by simp
    with False show ?thesis
      by (subst dec_digits.simps) (simp add: int_of_digits_snoc)
  qed
qed

lemma takeWhile_digits:
  "list_all is_digit09 t \<Longrightarrow> \<not> digit_follows r \<Longrightarrow>
   takeWhile is_digit09 (t @ r) = t \<and> dropWhile is_digit09 (t @ r) = r"
  by (induction t) (auto simp: digit_follows_def split: list.splits)

lemma match_integer_dec_digits:
  assumes "\<not> digit_follows r"
  shows "match_integer (dec_digits n @ r) = Some (dec_digits n, r)"
proof (cases "n = 0")
  case True
  then show ?thesis
    by (subst (1 2) dec_digits.simps) (simp add: match_integer_def)
next
  case False
  with dec_digits_Cons[of n] obtain d t where e: "dec_digits n = d # t" and d: "d \<noteq> 48"
    by blast
  from dec_digits_all[of n] e have "is_digit09 d" and "list_all is_digit09 t" by simp_all
  with d takeWhile_digits[OF _ assms, of t] show ?thesis
    by (simp add: e match_integer_def)
qed

lemma match_number_int_repr:
  assumes "\<not> digit_follows r"
  shows "match_number (int_repr i @ r) = Some (i, r)"
proof (cases "i < 0")
  case True
  then show ?thesis
    by (simp add: int_repr_def match_number_def match_integer_dec_digits[OF assms] int_of_dec_digits)
next
  case False
  from dec_digits_Cons[of "nat i"] obtain d t where e: "dec_digits (nat i) = d # t" by blast
  from dec_digits_all[of "nat i"] e have "d \<noteq> 0x2D" by (auto simp: is_digit09_def)
  with False show ?thesis
    using match_integer_dec_digits[OF assms, of "nat i"] int_of_dec_digits[of "nat i"]
    by (simp add: int_repr_def match_number_def e)
qed

lemma int_repr_Cons: "\<exists>c s. int_repr i = c # s \<and> (c = 0x2D \<or> is_digit09 c)"
  using dec_digits_Cons[of "nat i"] dec_digits_all[of "nat i"]
  by (auto simp: int_repr_def)

subsection \<open>Tokens\<close>

lemma delim_comma [simp]: "delim (0x2C # r)"
  and delim_rbrace [simp]: "delim (0x7D # r)"
  and delim_Nil [simp]: "delim []"
  by (simp_all add: delim_def digit_follows_def float_tail_def is_digit09_def)

lemma tcons_Inr [simp]: "tcons t (Inr ts) = Inr (t # ts)"
  by (simp add: tcons_def)

lemma tappend_Inr [simp]: "tappend ts (Inr us) = Inr (ts @ us)"
  by (simp add: tappend_def)

lemma tappend_simps [simp]:
  "tappend [] r = r"
  "tappend (t # ts) r = tcons t (tappend ts r)"
  by (simp_all add: tappend_def tcons_def split: sum.splits)

lemma tokenize_string:
  "py_text s \<Longrightarrow>
   tokenize (py_encode_basestring_ascii s @ r) = tcons (TScalar (JStr s)) (tokenize r)"
  using scanstring_body[of s "[]" r] by (simp add: py_encode_basestring_ascii_def)

lemma tokenize_int:
  assumes "delim r"
  shows "tokenize (int_repr i @ r) = tcons (TScalar (JInt i)) (tokenize r)"
proof -
  from assms have nd: "\<not> digit_follows r" and nf: "\<not> float_tail r" by (simp_all add: delim_def)
  from int_repr_Cons[of i] obtain c s where e: "int_repr i = c # s"
    and c: "c = 0x2D \<or> is_digit09 c" by blast
  have m: "match_number (c # s @ r) = Some (i, r)"
    using match_number_int_repr[OF nd, of i] by (simp add: e)
  from c show ?thesis
    by (auto simp: e m nf is_digit09_def starts_with_def ascii_def)
qed

lemma tokenize_null: "tokenize (ascii ''null'' @ r) = tcons (TScalar JNull) (tokenize r)"
  by (simp add: starts_with_def ascii_def)

lemma tokenize_true: "tokenize (ascii ''true'' @ r) = tcons (TScalar (JBool True)) (tokenize r)"
  by (simp add: starts_with_def ascii_def)

lemma tokenize_false: "tokenize (ascii ''false'' @ r) = tcons (TScalar (JBool False)) (tokenize r)"
  by (simp add: starts_with_def ascii_def)

lemma tokenize_scalar:
  assumes "scalar_ok v" and "delim r"
  shows "tokenize (json_dumps v @ r) = tcons (TScalar v) (tokenize r)"
proof (cases v)
  case (JBool b)
  then show ?thesis by (cases b) (simp_all add: tokenize_true tokenize_false)
next
  case (JInt i)
  with assms show ?thesis by (simp add: tokenize_int)
next
  case (JStr s)
  with assms show ?thesis by (simp add: tokenize_string scalar_ok_def)
qed (use assms in \<open>simp_all add: tokenize_null scalar_ok_def\<close>)

lemma tokenize_item:
  assumes "py_text k" and "scalar_ok v" and "delim r"
  shows "tokenize (py_encode_basestring_ascii k @ ascii '': '' @ json_dumps v @ r)
         = tcons (TScalar (JStr k)) (tcons TColon (tcons (TScalar v) (tokenize r)))"
proof -
  have "tokenize (ascii '': '' @ json_dumps v @ r) = tcons TColon (tokenize (json_dumps v @ r))"
    by (simp add: ascii_def)
  then show ?thesis
    using assms by (simp add: tokenize_string tokenize_scalar)
qed

lemma tokenize_items:
  "flat_ok d \<Longrightarrow>
   tokenize (dumps_items d @ 0x7D # r) = tappend (item_tokens d) (tcons TRBrace (tokenize r))"
proof (induction d rule: item_tokens.induct)
  case 1
  show ?case by simp
next
  case (2 k v)
  then have "py_text k" and "scalar_ok v" by (simp_all add: flat_ok_def)
  then show ?case
    using tokenize_item[of k v "0x7D # r"] by simp
next
  case (3 k v kv d)
  then have k: "py_text k" and v: "scalar_ok v" and rest: "flat_ok (kv # d)"
    by (simp_all add: flat_ok_def)
  let ?r = "dumps_items (kv # d) @ 0x7D # r"
  have "tokenize (ascii '', '' @ ?r) = tcons TComma (tokenize ?r)"
    by (simp add: ascii_def)
  moreover have "delim (ascii '', '' @ ?r)" by (simp add: ascii_def)
  ultimately show ?case
    using tokenize_item[OF k v, of "ascii '', '' @ ?r"] "3.IH"[OF rest]
    by (cases kv) simp
qed

lemma tokenize_object:
  assumes "flat_ok d"
  shows "tokenize (json_dumps (JObj d)) = Inr (TLBrace # item_tokens d @ [TRBrace])"
proof -
  have "tokenize (json_dumps (JObj d)) = tcons TLBrace (tokenize (dumps_items d @ 0x7D # []))"
    by (simp add: ascii_def)
  then show ?thesis
    by (simp add: tokenize_items[OF assms])
qed

subsection \<open>The parser\<close>

lemma dict_set_fresh: "k \<notin> fst ` set d \<Longrightarrow> dict_set d k v = d @ [(k, v)]"
  by (induction d) auto

lemma parse_items:
  assumes "distinct (map fst (acc @ d))" and "d \<noteq> []"
  shows "parse SKey (FObj acc # st) (item_tokens d @ TRBrace # ts)
         = (case put (JObj (acc @ d)) st of None \<Rightarrow> None | Some (ps, st') \<Rightarrow> parse ps st' ts)"
  using assms
proof (induction d arbitrary: acc rule: item_tokens.induct)
  case 1
  then show ?case by simp
next
  case (2 k v)
  then have "k \<notin> fst ` set acc" by auto
  then show ?case
    by (simp add: pstep_def start_key_def start_value_def put_def close_frame_def dict_set_fresh)
next
  case (3 k v kv d)
  then have k: "k \<notin> fst ` set acc" and dis: "distinct (map fst ((acc @ [(k, v)]) @ kv # d))"
    by auto
  have "parse SKey (FObj acc # st) (item_tokens ((k, v) # kv # d) @ TRBrace # ts)
        = parse SKey (FObj (acc @ [(k, v)]) # st) (item_tokens (kv # d) @ TRBrace # ts)"
    using k by (simp add: pstep_def start_key_def start_value_def put_def dict_set_fresh)
  also have "\<dots> = (case put (JObj ((acc @ [(k, v)]) @ kv # d)) st of
                       None \<Rightarrow> None | Some (ps, st') \<Rightarrow> parse ps st' ts)"
    by (rule "3.IH"[OF dis]) simp
  finally show ?case by simp
qed

lemma item_tokens_first: "\<exists>ts. item_tokens ((k, v) # d) = TScalar (JStr k) # ts"
  by (cases d) auto

lemma parse_object:
  assumes "distinct (map fst d)"
  shows "parse SValue [] (TLBrace # item_tokens d @ [TRBrace]) = Some (JObj d)"
proof (cases d)
  case Nil
  then show ?thesis
    by (simp add: pstep_def start_value_def close_frame_def put_def)
next
  case (Cons kv d')
  obtain k v where kv: "kv = (k, v)" by (cases kv)
  from item_tokens_first[of k v d'] obtain ts' where ts': "item_tokens d = TScalar (JStr k) # ts'"
    unfolding Cons kv by blast
  have "parse SValue [] (TLBrace # item_tokens d @ [TRBrace])
        = parse SKeyOrEnd [FObj []] (item_tokens d @ [TRBrace])"
    by (simp add: pstep_def start_value_def)
  also have "\<dots> = parse SKey [FObj []] (item_tokens d @ [TRBrace])"
    by (simp add: ts' pstep_def)
  also have "\<dots> = Some (JObj d)"
    using parse_items[of "[]" d "[]" "[]"] assms Cons by (simp add: put_def)
  finally show ?thesis .
qed

lemma json_roundtrip_flat:
  assumes "flat_ok d"
  shows "json_loads (json_dumps (JObj d)) = Inr (JObj d)"
proof -
  have "distinct (map fst d)" using assms by (simp add: flat_ok_def)
  then have "parse SValue [] (TLBrace # item_tokens d @ [TRBrace]) = Some (JObj d)"
    by (rule parse_object)
  then show ?thesis
    unfolding json_loads_def tokenize_object[OF assms] by (simp del: parse.simps)
qed

text \<open>The hypothesis on the strings is needed: the two surrogates of a pair, written as
  two characters, are read back as one.\<close>

lemma surrogate_pair_joined:
  "json_dumps (JStr [0xD83D, 0xDE00]) = ascii ''\"'' @ [0x5C] @ ascii ''ud83d'' @ [0x5C] @ ascii ''ude00\"''"
  "json_loads (json_dumps (JStr [0xD83D, 0xDE00])) = Inr (JStr [0x1F600])"
  by (simp_all add: json_dumps.simps json_loads_def py_encode_basestring_ascii_def escape_char_def
        hex4_def hexdigit_def ascii_def scan_chunk_def scan_escape_def decode_uXXXX_def hexval_def
        pstep_def start_value_def put_def)

section \<open>Book records\<close>

lemma ascii_eq_iff [simp]: "ascii s = ascii t \<longleftrightarrow> s = t"
proof -
  have "inj (of_char :: char \<Rightarrow> nat)" by (simp add: inj_on_def)
  then show ?thesis by (simp add: ascii_def inj_map_eq_map)
qed

lemma ascii_Nil_iff [simp]: "ascii s = [] \<longleftrightarrow> s = []" "[] = ascii s \<longleftrightarrow> s = []"
  by (auto simp: ascii_def)

lemma py_text_ascii_campos [simp]:
  "py_text (ascii ''id'')" "py_text (ascii ''titulo'')" "py_text (ascii ''autor'')"
  "py_text (ascii ''anio_publicacion'')" "py_text (ascii ''genero'')" "py_text (ascii ''leido'')"
  by (simp_all add: py_text_def ascii_def is_high_def)

lemma distinct_CAMPOS: "distinct CAMPOS"
  by (simp add: CAMPOS_def)

lemma is_libro_shape:
  assumes "is_libro j"
  obtains i t a y g l where
    "j = JObj [(ascii ''id'', JStr i), (ascii ''titulo'', JStr t), (ascii ''autor'', JStr a),
               (ascii ''anio_publicacion'', y), (ascii ''genero'', g), (ascii ''leido'', JBool l)]"
    and "py_text i" and "py_text t" and "py_text a"
    and "is_int_or_none y" and "is_str_or_none g" and "scalar_ok g"
proof -
  from assms obtain d where j: "j = JObj d" and keys: "map fst d = CAMPOS" and flat: "flat_ok d"
    and types: "list_all2 (\<lambda>p v. p v)
                  [is_str, is_str, is_str, is_int_or_none, is_str_or_none, is_bool] (map snd d)"
    by (auto simp: is_libro_def split: json.splits)
  from keys obtain v1 v2 v3 v4 v5 v6 where d:
    "d = [(ascii ''id'', v1), (ascii ''titulo'', v2), (ascii ''autor'', v3),
          (ascii ''anio_publicacion'', v4), (ascii ''genero'', v5), (ascii ''leido'', v6)]"
    by (auto simp: CAMPOS_def map_eq_Cons_conv)
  from types d obtain i t a l where vs: "v1 = JStr i" "v2 = JStr t" "v3 = JStr a" "v6 = JBool l"
    and y: "is_int_or_none v4" and g: "is_str_or_none v5"
    by (auto simp: is_str_def is_bool_def split: json.splits)
  from flat d vs have "py_text i" "py_text t" "py_text a" "scalar_ok v5"
    by (simp_all add: flat_ok_def scalar_ok_def)
  with that j d vs y g show ?thesis by blast
qed

lemma is_libro_nuevo_libro:
  assumes "py_text i" and "py_text t" and "py_text a" and "py_text g"
  shows "is_libro (nuevo_libro i t a y g)"
  using assms
  by (cases y)
     (simp_all add: is_libro_def nuevo_libro_def CAMPOS_def flat_ok_def scalar_ok_def
        is_str_def is_bool_def is_int_or_none_def is_str_or_none_def)

lemma py_text_Nil [simp]: "py_text []"
  by (simp add: py_text_def)

section \<open>The store and the operations\<close>

lemma key_neq_all [simp]: "KEY_PREFIX @ i \<noteq> ALL_BOOKS_KEY" "ALL_BOOKS_KEY \<noteq> KEY_PREFIX @ i"
  by (auto simp: KEY_PREFIX_def ALL_BOOKS_KEY_def ascii_def)

lemma key_inj [simp]: "KEY_PREFIX @ i = KEY_PREFIX @ j \<longleftrightarrow> i = j"
  by simp

lemma imprimir_simps [simp]:
  "db (imprimir m w) = db w" "cmds (imprimir m w) = cmds w" "out (imprimir m w) = out w @ [m]"
  by (simp_all add: imprimir_def)

lemma sent_simps [simp]:
  "db (sent c w) = db w" "cmds (sent c w) = cmds w @ [c]" "out (sent c w) = out w"
  by (simp_all add: sent_def)

lemma endswith_iff: "endswith s suf \<longleftrightarrow> (\<exists>p. s = p @ suf)"
proof
  assume "endswith s suf"
  then have "s = take (length s - length suf) s @ suf"
    by (metis append_take_drop_id endswith_def)
  then show "\<exists>p. s = p @ suf" ..
next
  assume "\<exists>p. s = p @ suf"
  then show "endswith s suf" by (auto simp: endswith_def)
qed

lemma endswith_Nil [simp]: "endswith s []"
  by (simp add: endswith_def)

lemma leer_anio_no_digito:
  assumes "anio = [] \<or> (\<exists>c\<in>set anio. \<not> digit u c)"
  shows "leer_anio u anio = (None, [])"
  using assms by (auto simp: leer_anio_def py_isdigit_def list_all_iff)

lemma redis_smembers_members:
  "redis_smembers ALL_BOOKS_KEY w =
     ((case members w of None \<Rightarrow> Inl ResponseError | Some ids \<Rightarrow> Inr ids),
      sent (SMEMBERS ALL_BOOKS_KEY) w)"
  by (simp add: redis_smembers_def members_def split: option.splits rval.splits)

lemma libros_recuperados_eq:
  "libros_recuperados w =
     (case members w of
        None \<Rightarrow> (Inl ResponseError, sent (SMEMBERS ALL_BOOKS_KEY) w)
      | Some ids \<Rightarrow>
          (case cargar (valores w ids) of Inl e \<Rightarrow> Inl e | Inr libros \<Rightarrow> Inr (rev libros),
           sent (MGET (map (\<lambda>i. KEY_PREFIX @ i) ids)) (sent (SMEMBERS ALL_BOOKS_KEY) w)))"
  by (simp add: libros_recuperados_def redis_smembers_members redis_mget_def valores_def Let_def
        comp_def split: option.splits sum.splits)

lemma libros_recuperados_frame [simp]:
  "db (snd (libros_recuperados w)) = db w" "out (snd (libros_recuperados w)) = out w"
  by (simp_all add: libros_recuperados_eq split: option.splits sum.splits)

lemma listar_libros_db [simp]: "db (snd (listar_libros w)) = db w"
proof -
  obtain r w1 where e: "libros_recuperados w = (r, w1)" by (cases "libros_recuperados w")
  then have "db w1 = db w" using libros_recuperados_frame(1)[of w] by simp
  then show ?thesis
    by (simp add: listar_libros_def e split: sum.splits prod.splits)
qed

lemma find_first: "\<forall>j\<in>set pre. \<not> P j \<Longrightarrow> P i \<Longrightarrow> find P (pre @ i # post) = Some i"
  by (induction pre) auto

lemma find_split:
  "find P xs = Some i \<Longrightarrow> \<exists>pre post. xs = pre @ i # post \<and> (\<forall>j\<in>set pre. \<not> P j) \<and> P i"
proof (induction xs)
  case Nil
  then show ?case by simp
next
  case (Cons x xs)
  show ?case
  proof (cases "P x")
    case True
    with Cons.prems have "x = i" by simp
    with True have "x # xs = [] @ i # xs \<and> (\<forall>j\<in>set []. \<not> P j) \<and> P i" by simp
    then show ?thesis by blast
  next
    case False
    with Cons obtain pre post where "xs = pre @ i # post" "\<forall>j\<in>set pre. \<not> P j" "P i" by auto
    with False have "x # xs = (x # pre) @ i # post \<and> (\<forall>j\<in>set (x # pre). \<not> P j) \<and> P i" by simp
    then show ?thesis by blast
  qed
qed

lemma buscar_eq:
  "buscar_libro_por_id_parcial suf w =
     (case members w of
        None \<Rightarrow> (Inl ResponseError, sent (SMEMBERS ALL_BOOKS_KEY) w)
      | Some ids \<Rightarrow>
          (case find (\<lambda>i. endswith i suf) ids of
             None \<Rightarrow> (Inr (JNull, None), sent (SMEMBERS ALL_BOOKS_KEY) w)
           | Some i \<Rightarrow>
               if i = [] then (Inr (JNull, None), sent (SMEMBERS ALL_BOOKS_KEY) w)
               else
                 ((case db w (KEY_PREFIX @ i) of
                     None \<Rightarrow> Inr (JNull, None)
                   | Some (RSet ms) \<Rightarrow> Inl ResponseError
                   | Some (RString v) \<Rightarrow>
                       if v = [] then Inr (JNull, None)
                       else (case json_loads v of
                               Inl e \<Rightarrow> Inl e
                             | Inr libro \<Rightarrow> Inr (libro, Some (KEY_PREFIX @ i)))),
                  sent (GET (KEY_PREFIX @ i)) (sent (SMEMBERS ALL_BOOKS_KEY) w))))"
  by (simp add: buscar_libro_por_id_parcial_def redis_smembers_members redis_get_def Let_def
      split: option.splits sum.splits rval.splits)

lemma buscar_db [simp]: "db (snd (buscar_libro_por_id_parcial suf w)) = db w"
  by (simp add: buscar_eq split: option.splits sum.splits rval.splits)

lemma json_loads_Nil: "json_loads [] = Inl JSONDecodeError"
  by (simp add: json_loads_def)

lemma cargar_ok:
  "(\<forall>v. Some v \<in> set vals \<and> v \<noteq> [] \<longrightarrow> (\<exists>j. json_loads v = Inr j)) \<Longrightarrow>
   cargar vals = Inr (map (\<lambda>x. projr (json_loads (the x)))
                        (filter (\<lambda>x. x \<noteq> None \<and> x \<noteq> Some []) vals))"
proof (induction vals rule: cargar.induct)
  case 1
  show ?case by simp
next
  case (2 vs)
  then show ?case by simp
next
  case (3 v vs)
  show ?case
  proof (cases "v = []")
    case True
    with 3 show ?thesis by simp
  next
    case False
    with "3.prems" obtain j where j: "json_loads v = Inr j" by auto
    from "3.prems" have "\<forall>v. Some v \<in> set vs \<and> v \<noteq> [] \<longrightarrow> (\<exists>j. json_loads v = Inr j)" by auto
    with "3.IH"(2)[OF False j] False j show ?thesis by simp
  qed
qed

lemma filas_ok:
  "(\<forall>j\<in>set js. \<exists>f. fila_de j = Inr f) \<Longrightarrow> filas js = (map (\<lambda>j. projr (fila_de j)) js, None)"
  by (induction js) auto

lemma mget_valores:
  "fst (redis_mget (map (\<lambda>i. KEY_PREFIX @ i) ids) w) = valores w ids"
  by (simp add: redis_mget_def valores_def comp_def)

lemma nuevos_simps [simp]:
  "nuevos w w = []"
  "nuevos w (sent c w') = nuevos w w' @ [c]" if "length (cmds w) \<le> length (cmds w')"
  using that by (simp_all add: nuevos_def)

lemma registro_okE:
  assumes "registro_ok i v"
  obtains libro where "json_loads v = Inr libro" and "is_libro libro"
    and "subscript libro (ascii ''id'') = Inr (JStr i)" and "v \<noteq> []"
proof -
  from assms obtain libro where l: "json_loads v = Inr libro" "is_libro libro"
    "subscript libro (ascii ''id'') = Inr (JStr i)"
    by (auto simp: registro_ok_def split: sum.splits)
  moreover from l(1) have "v \<noteq> []" using json_loads_Nil by auto
  ultimately show ?thesis using that by blast
qed

lemma is_libro_fila:
  assumes "is_libro j"
  shows "\<exists>f. fila_de j = Inr f"
proof -
  from assms obtain i t a y g l where
    j: "j = JObj [(ascii ''id'', JStr i), (ascii ''titulo'', JStr t), (ascii ''autor'', JStr a),
               (ascii ''anio_publicacion'', y), (ascii ''genero'', g), (ascii ''leido'', JBool l)]"
    and y: "is_int_or_none y"
    by (rule is_libro_shape)
  from y have "\<exists>c. celda_anio j = Inr c"
    by (auto simp: celda_anio_def subscript_def j is_int_or_none_def split: json.splits)
  then show ?thesis
    by (auto simp: fila_de_def dict_get_def campo_str_def subscript_def j)
qed

lemma is_libro_truthy: "is_libro j \<Longrightarrow> truthy j"
  by (erule is_libro_shape) simp

lemma is_libro_marcado:
  assumes "is_libro j"
  shows "is_libro (marcado j)"
    and "subscript (marcado j) (ascii ''leido'') = Inr (JBool True)"
    and "k \<noteq> ascii ''leido'' \<Longrightarrow> subscript (marcado j) k = subscript j k"
proof -
  from assms obtain i t a y g l where
    j: "j = JObj [(ascii ''id'', JStr i), (ascii ''titulo'', JStr t), (ascii ''autor'', JStr a),
               (ascii ''anio_publicacion'', y), (ascii ''genero'', g), (ascii ''leido'', JBool l)]"
    and ok: "py_text i" "py_text t" "py_text a" "is_int_or_none y" "is_str_or_none g" "scalar_ok g"
    by (rule is_libro_shape)
  have m: "marcado j = JObj [(ascii ''id'', JStr i), (ascii ''titulo'', JStr t),
               (ascii ''autor'', JStr a), (ascii ''anio_publicacion'', y), (ascii ''genero'', g),
               (ascii ''leido'', JBool True)]"
    by (simp add: marcado_def j)
  from ok show "is_libro (marcado j)"
    unfolding m
    by (auto simp: is_libro_def CAMPOS_def flat_ok_def scalar_ok_def is_str_def is_bool_def
          is_int_or_none_def split: json.splits)
  show "subscript (marcado j) (ascii ''leido'') = Inr (JBool True)"
    unfolding m by (simp add: subscript_def)
  show "subscript (marcado j) k = subscript j k" if "k \<noteq> ascii ''leido''"
    using that unfolding m unfolding j by (simp add: subscript_def)
qed

lemma entrada_ok_db: "db w' = db w \<Longrightarrow> entrada_ok w' = entrada_ok w"
  by (rule ext) (simp add: entrada_ok_def)

lemma store_ok_db:
  assumes "db w' = db w"
  shows "store_ok w' = store_ok w"
proof -
  have e: "entrada_ok w' = entrada_ok w"
    using assms by (rule entrada_ok_db)
  have m: "members w' = members w"
    using assms by (simp add: members_def)
  show ?thesis unfolding store_ok_def e m by (rule refl)
qed


lemma members_db: "db w' = db w \<Longrightarrow> members w' = members w"
  by (simp add: members_def)

lemma store_ok_entrada:
  "store_ok w \<Longrightarrow> members w = Some ids \<Longrightarrow> i \<in> set ids \<Longrightarrow> entrada_ok w i"
  by (simp add: store_ok_def list_all_iff)

lemma store_ok_cargar:
  assumes "store_ok w" and "members w = Some ids"
  shows "\<exists>js. cargar (valores w ids) = Inr js \<and> (\<forall>j\<in>set js. is_libro j)"
proof -
  have "\<forall>i\<in>set ids'. entrada_ok w i \<Longrightarrow>
        \<exists>js. cargar (valores w ids') = Inr js \<and> (\<forall>j\<in>set js. is_libro j)" for ids'
  proof (induction ids')
    case Nil
    show ?case by (simp add: valores_def)
  next
    case (Cons i ids')
    then obtain js where js: "cargar (valores w ids') = Inr js" "\<forall>j\<in>set js. is_libro j" by auto
    from Cons.prems have e: "entrada_ok w i" by simp
    show ?case
    proof (cases "db w (KEY_PREFIX @ i)")
      case None
      with js show ?thesis by (simp add: valores_def)
    next
      case (Some r)
      with e obtain v where r: "r = RString v" and v: "registro_ok i v"
        by (auto simp: entrada_ok_def split: rval.splits)
      from v obtain libro where "json_loads v = Inr libro" "is_libro libro" "v \<noteq> []"
        by (rule registro_okE)
      with js Some r show ?thesis by (simp add: valores_def)
    qed
  qed
  with assms show ?thesis
    by (simp add: store_ok_def list_all_iff)
qed

lemma listar_ok:
  assumes "store_ok w" and "members w = Some ids"
  shows "fst (listar_libros w) = None
       \<and> cmds (snd (listar_libros w))
           = cmds w @ [SMEMBERS ALL_BOOKS_KEY, MGET (map (\<lambda>i. KEY_PREFIX @ i) ids)]"
proof -
  from store_ok_cargar[OF assms] obtain js where
    js: "cargar (valores w ids) = Inr js" "\<forall>j\<in>set js. is_libro j" by blast
  then have "\<forall>j\<in>set (rev js). \<exists>f. fila_de j = Inr f" by (simp add: is_libro_fila)
  then have f: "filas (rev js) = (map (\<lambda>j. projr (fila_de j)) (rev js), None)" by (rule filas_ok)
  show ?thesis
    by (simp add: listar_libros_def libros_recuperados_eq assms(2) js(1) f)
qed

lemma redis_set_simps [simp]:
  "db (redis_set k v w) = (db w)(k \<mapsto> RString v)"
  "cmds (redis_set k v w) = cmds w @ [SET k v]"
  "out (redis_set k v w) = out w"
  by (simp_all add: redis_set_def)

lemma find_in_set: "find P xs = Some i \<Longrightarrow> i \<in> set xs \<and> P i"
  by (induction xs) (auto split: if_splits)

lemma registro_ok_dumps:
  "is_libro j \<Longrightarrow> subscript j (ascii ''id'') = Inr (JStr i) \<Longrightarrow> registro_ok i (json_dumps j)"
proof -
  assume l: "is_libro j" and i: "subscript j (ascii ''id'') = Inr (JStr i)"
  from l obtain d where "j = JObj d" and "flat_ok d"
    by (auto simp: is_libro_def split: json.splits)
  then have "json_loads (json_dumps j) = Inr j" by (simp only: json_roundtrip_flat)
  with l i show ?thesis by (simp add: registro_ok_def)
qed

lemma buscar_ok:
  assumes ok: "store_ok w" and m: "members w = Some ids"
    and f: "find (\<lambda>i. endswith i s) ids = Some i"
    and v: "db w (KEY_PREFIX @ i) = Some (RString v)"
  obtains libro where "json_loads v = Inr libro" and "is_libro libro"
    and "subscript libro (ascii ''id'') = Inr (JStr i)"
    and "buscar_libro_por_id_parcial s w =
           (Inr (libro, Some (KEY_PREFIX @ i)),
            sent (GET (KEY_PREFIX @ i)) (sent (SMEMBERS ALL_BOOKS_KEY) w))"
proof -
  from f have "i \<in> set ids" by (simp add: find_in_set)
  with ok m have e: "entrada_ok w i" by (rule store_ok_entrada)
  with v have i: "i \<noteq> []" and r: "registro_ok i v" by (simp_all add: entrada_ok_def)
  from r obtain libro where l: "json_loads v = Inr libro" "is_libro libro"
    "subscript libro (ascii ''id'') = Inr (JStr i)" "v \<noteq> []"
    by (rule registro_okE)
  then have "buscar_libro_por_id_parcial s w =
           (Inr (libro, Some (KEY_PREFIX @ i)),
            sent (GET (KEY_PREFIX @ i)) (sent (SMEMBERS ALL_BOOKS_KEY) w))"
    by (simp add: buscar_eq m f i v)
  with l that show ?thesis by blast
qed

lemma marcar_encontrado_eq:
  assumes ok: "store_ok w" and m: "members w = Some ids"
    and f: "find (\<lambda>i. endswith i s) ids = Some i"
    and v: "db w (KEY_PREFIX @ i) = Some (RString v)"
    and l: "json_loads v = Inr libro"
  shows "marcar_encontrado s w =
           (if subscript libro (ascii ''leido'') = Inr (JBool True)
            then imprimir YaLeido (sent (GET (KEY_PREFIX @ i)) (sent (SMEMBERS ALL_BOOKS_KEY) w))
            else imprimir (MarcadoLeido s (projr (subscript libro (ascii ''titulo''))))
                   (redis_set (KEY_PREFIX @ i) (json_dumps (marcado libro))
                      (sent (GET (KEY_PREFIX @ i)) (sent (SMEMBERS ALL_BOOKS_KEY) w))))"
proof -
  from buscar_ok[OF ok m f v] l have lib: "is_libro libro"
    and b: "buscar_libro_por_id_parcial s w =
           (Inr (libro, Some (KEY_PREFIX @ i)),
            sent (GET (KEY_PREFIX @ i)) (sent (SMEMBERS ALL_BOOKS_KEY) w))"
    by auto
  from lib obtain i' t a y g r where
    j: "libro = JObj [(ascii ''id'', JStr i'), (ascii ''titulo'', JStr t), (ascii ''autor'', JStr a),
               (ascii ''anio_publicacion'', y), (ascii ''genero'', g), (ascii ''leido'', JBool r)]"
    by (rule is_libro_shape)
  show ?thesis
    by (cases r)
       (simp_all add: marcar_encontrado_def b j dict_get_def subscript_def actualizar_libro_def
          marcado_def Let_def)
qed

lemma is_libro_roundtrip: "is_libro j \<Longrightarrow> json_loads (json_dumps j) = Inr j"
proof -
  assume "is_libro j"
  then obtain d where "j = JObj d" and "flat_ok d"
    by (auto simp: is_libro_def split: json.splits)
  then show ?thesis by (simp only: json_roundtrip_flat)
qed

declare json_dumps.simps [simp del]

lemma store_ok_set:
  assumes ok: "store_ok w" and r: "registro_ok i v'" and i: "i \<noteq> []"
    and d: "db w' = (db w)(KEY_PREFIX @ i \<mapsto> RString v')"
  shows "store_ok w'" and "members w' = members w"
proof -
  show m: "members w' = members w" by (simp add: members_def d)
  have "entrada_ok w' j" if "entrada_ok w j" for j
    using that r i by (cases "j = i") (simp_all add: entrada_ok_def d)
  with ok show "store_ok w'"
    by (auto simp: store_ok_def m list_all_iff split: option.splits)
qed

lemma marcar_como_leido_eq:
  assumes ok: "store_ok w" and m: "members w = Some ids"
    and s: "py_strip id_in = s" "s \<noteq> []"
  shows "marcar_como_leido id_in w = (None, marcar_encontrado s (snd (listar_libros w)))"
  using listar_ok[OF ok m] s
  by (cases "listar_libros w") (simp add: marcar_como_leido_def Let_def)

lemma marcar_result:
  assumes ok: "store_ok w" and m: "members w = Some ids"
    and s: "py_strip id_in = s" "s \<noteq> []"
    and f: "find (\<lambda>i. endswith i s) ids = Some i"
    and v: "db w (KEY_PREFIX @ i) = Some (RString v)"
    and l: "json_loads v = Inr libro"
    and w1: "w1 = snd (marcar_como_leido id_in w)"
  shows "fst (marcar_como_leido id_in w) = None"
    and "subscript libro (ascii ''leido'') = Inr (JBool True) \<Longrightarrow>
           db w1 = db w
           \<and> nuevos w w1 = [SMEMBERS ALL_BOOKS_KEY, MGET (map (\<lambda>i. KEY_PREFIX @ i) ids),
                            SMEMBERS ALL_BOOKS_KEY, GET (KEY_PREFIX @ i)]
           \<and> last (out w1) = YaLeido"
    and "subscript libro (ascii ''leido'') \<noteq> Inr (JBool True) \<Longrightarrow>
           db w1 = (db w)(KEY_PREFIX @ i \<mapsto> RString (json_dumps (marcado libro)))
           \<and> nuevos w w1 = [SMEMBERS ALL_BOOKS_KEY, MGET (map (\<lambda>i. KEY_PREFIX @ i) ids),
                            SMEMBERS ALL_BOOKS_KEY, GET (KEY_PREFIX @ i),
                            SET (KEY_PREFIX @ i) (json_dumps (marcado libro))]
           \<and> last (out w1) = MarcadoLeido s (projr (subscript libro (ascii ''titulo'')))"
proof -
  define wl where "wl = snd (listar_libros w)"
  have dl: "db wl = db w" by (simp add: wl_def)
  have cl: "cmds wl = cmds w @ [SMEMBERS ALL_BOOKS_KEY, MGET (map (\<lambda>i. KEY_PREFIX @ i) ids)]"
    using listar_ok[OF ok m] by (simp add: wl_def)
  have okl: "store_ok wl" using ok by (simp add: store_ok_db[OF dl])
  have ml: "members wl = Some ids" using m by (simp add: members_db[OF dl])
  have vl: "db wl (KEY_PREFIX @ i) = Some (RString v)" using v by (simp add: dl)
  have e: "marcar_como_leido id_in w = (None, marcar_encontrado s wl)"
    unfolding wl_def by (rule marcar_como_leido_eq[OF ok m s])
  note me = marcar_encontrado_eq[OF okl ml f vl l]
  show "fst (marcar_como_leido id_in w) = None" by (simp add: e)
  { assume "subscript libro (ascii ''leido'') = Inr (JBool True)"
    then show "db w1 = db w
           \<and> nuevos w w1 = [SMEMBERS ALL_BOOKS_KEY, MGET (map (\<lambda>i. KEY_PREFIX @ i) ids),
                            SMEMBERS ALL_BOOKS_KEY, GET (KEY_PREFIX @ i)]
           \<and> last (out w1) = YaLeido"
      by (simp add: w1 e me dl cl nuevos_def) }
  { assume "subscript libro (ascii ''leido'') \<noteq> Inr (JBool True)"
    then show "db w1 = (db w)(KEY_PREFIX @ i \<mapsto> RString (json_dumps (marcado libro)))
           \<and> nuevos w w1 = [SMEMBERS ALL_BOOKS_KEY, MGET (map (\<lambda>i. KEY_PREFIX @ i) ids),
                            SMEMBERS ALL_BOOKS_KEY, GET (KEY_PREFIX @ i),
                            SET (KEY_PREFIX @ i) (json_dumps (marcado libro))]
           \<and> last (out w1) = MarcadoLeido s (projr (subscript libro (ascii ''titulo'')))"
      by (simp add: w1 e me dl cl nuevos_def) }
qed

lemma members_Some_Cons:
  "members w = Some ids \<Longrightarrow> i \<in> set ids \<Longrightarrow> db w ALL_BOOKS_KEY = Some (RSet ids)"
  by (auto simp: members_def split: option.splits rval.splits)

lemma store_ok_cargar_ids:
  assumes "store_ok w" and "members w = Some ids"
  shows "\<exists>js. cargar (valores w ids) = Inr js
           \<and> (\<forall>j\<in>set js. \<exists>i\<in>set ids. subscript j (ascii ''id'') = Inr (JStr i))"
proof -
  have "\<forall>i\<in>set ids'. entrada_ok w i \<Longrightarrow>
        \<exists>js. cargar (valores w ids') = Inr js
           \<and> (\<forall>j\<in>set js. \<exists>i\<in>set ids'. subscript j (ascii ''id'') = Inr (JStr i))" for ids'
  proof (induction ids')
    case Nil
    show ?case by (simp add: valores_def)
  next
    case (Cons i ids')
    then obtain js where js: "cargar (valores w ids') = Inr js"
      "\<forall>j\<in>set js. \<exists>i\<in>set ids'. subscript j (ascii ''id'') = Inr (JStr i)" by auto
    from Cons.prems have e: "entrada_ok w i" by simp
    show ?case
    proof (cases "db w (KEY_PREFIX @ i)")
      case None
      with js show ?thesis by (auto simp: valores_def)
    next
      case (Some r)
      with e obtain v where r: "r = RString v" and v: "registro_ok i v"
        by (auto simp: entrada_ok_def split: rval.splits)
      from v obtain libro where "json_loads v = Inr libro"
        "subscript libro (ascii ''id'') = Inr (JStr i)" "v \<noteq> []"
        by (rule registro_okE)
      with js Some r show ?thesis by (auto simp: valores_def)
    qed
  qed
  with assms show ?thesis
    by (simp add: store_ok_def list_all_iff)
qed

lemma eliminar_encontrado_eq:
  assumes ok: "store_ok w" and m: "members w = Some ids"
    and f: "find (\<lambda>i. endswith i s) ids = Some i"
    and v: "db w (KEY_PREFIX @ i) = Some (RString v)"
    and w1: "w1 = eliminar_encontrado s w"
  shows "db w1 = (db w)(KEY_PREFIX @ i := None,
                        ALL_BOOKS_KEY := (if removeAll i ids = [] then None
                                          else Some (RSet (removeAll i ids))))
       \<and> cmds w1 = cmds w @ [SMEMBERS ALL_BOOKS_KEY, GET (KEY_PREFIX @ i), DEL (KEY_PREFIX @ i),
                               SREM ALL_BOOKS_KEY i]
       \<and> (\<exists>t. out w1 = out w @ [Eliminado s t])"
proof -
  from buscar_ok[OF ok m f v] obtain libro where lib: "is_libro libro"
    and lid: "subscript libro (ascii ''id'') = Inr (JStr i)"
    and b: "buscar_libro_por_id_parcial s w =
           (Inr (libro, Some (KEY_PREFIX @ i)),
            sent (GET (KEY_PREFIX @ i)) (sent (SMEMBERS ALL_BOOKS_KEY) w))"
    by blast
  from f have iin: "i \<in> set ids" by (simp add: find_in_set)
  have a: "db w ALL_BOOKS_KEY = Some (RSet ids)" using m iin by (rule members_Some_Cons)
  from lib obtain i' t a' y g r where
    j: "libro = JObj [(ascii ''id'', JStr i'), (ascii ''titulo'', JStr t), (ascii ''autor'', JStr a'),
               (ascii ''anio_publicacion'', y), (ascii ''genero'', g), (ascii ''leido'', JBool r)]"
    by (rule is_libro_shape)
  from lid j have ii: "i' = i" by (simp add: subscript_def)
  show ?thesis
    using iin
    by (simp add: w1 eliminar_encontrado_def b j ii eliminar_indice_def redis_delete_def v
          subscript_def redis_encode_def redis_srem_def a fun_upd_twist)
qed

lemma eliminar_libro_eq:
  assumes ok: "store_ok w" and m: "members w = Some ids"
    and s: "py_strip id_in = s" "s \<noteq> []"
  shows "eliminar_libro id_in w = (None, eliminar_encontrado s (snd (listar_libros w)))"
  using listar_ok[OF ok m] s
  by (cases "listar_libros w") (simp add: eliminar_libro_def Let_def)

lemma eliminar_result:
  assumes ok: "store_ok w" and m: "members w = Some ids"
    and s: "py_strip id_in = s" "s \<noteq> []"
    and f: "find (\<lambda>i. endswith i s) ids = Some i"
    and v: "db w (KEY_PREFIX @ i) = Some (RString v)"
    and w1: "w1 = snd (eliminar_libro id_in w)"
  shows "fst (eliminar_libro id_in w) = None"
    and "db w1 = (db w)(KEY_PREFIX @ i := None,
                        ALL_BOOKS_KEY := (if removeAll i ids = [] then None
                                          else Some (RSet (removeAll i ids))))"
    and "nuevos w w1 = [SMEMBERS ALL_BOOKS_KEY, MGET (map (\<lambda>i. KEY_PREFIX @ i) ids),
                        SMEMBERS ALL_BOOKS_KEY, GET (KEY_PREFIX @ i), DEL (KEY_PREFIX @ i),
                        SREM ALL_BOOKS_KEY i]"
    and "\<exists>t. last (out w1) = Eliminado s t"
proof -
  define wl where "wl = snd (listar_libros w)"
  have dl: "db wl = db w" by (simp add: wl_def)
  have cl: "cmds wl = cmds w @ [SMEMBERS ALL_BOOKS_KEY, MGET (map (\<lambda>i. KEY_PREFIX @ i) ids)]"
    using listar_ok[OF ok m] by (simp add: wl_def)
  have okl: "store_ok wl" using ok by (simp add: store_ok_db[OF dl])
  have ml: "members wl = Some ids" using m by (simp add: members_db[OF dl])
  have vl: "db wl (KEY_PREFIX @ i) = Some (RString v)" using v by (simp add: dl)
  have e: "eliminar_libro id_in w = (None, eliminar_encontrado s wl)"
    unfolding wl_def by (rule eliminar_libro_eq[OF ok m s])
  have w1': "w1 = eliminar_encontrado s wl" by (simp add: w1 e)
  note ee = eliminar_encontrado_eq[OF okl ml f vl w1']
  show "fst (eliminar_libro id_in w) = None" by (simp add: e)
  show "db w1 = (db w)(KEY_PREFIX @ i := None,
                        ALL_BOOKS_KEY := (if removeAll i ids = [] then None
                                          else Some (RSet (removeAll i ids))))"
    using ee by (simp add: dl)
  show "nuevos w w1 = [SMEMBERS ALL_BOOKS_KEY, MGET (map (\<lambda>i. KEY_PREFIX @ i) ids),
                        SMEMBERS ALL_BOOKS_KEY, GET (KEY_PREFIX @ i), DEL (KEY_PREFIX @ i),
                        SREM ALL_BOOKS_KEY i]"
    using ee by (simp add: cl nuevos_def)
  show "\<exists>t. last (out w1) = Eliminado s t"
    using ee by auto
qed

lemma store_ok_del:
  assumes ok: "store_ok w" and m: "members w = Some ids"
    and d: "db w1 = (db w)(KEY_PREFIX @ i := None,
                        ALL_BOOKS_KEY := (if removeAll i ids = [] then None
                                          else Some (RSet (removeAll i ids))))"
  shows "store_ok w1" and "members w1 = Some (removeAll i ids)"
proof -
  show m1: "members w1 = Some (removeAll i ids)"
    by (simp add: members_def d)
  have "entrada_ok w1 j" if "entrada_ok w j" for j
    using that by (cases "j = i") (simp_all add: entrada_ok_def d)
  moreover from ok m have "distinct ids" "\<forall>j\<in>set ids. entrada_ok w j"
    by (simp_all add: store_ok_def list_all_iff)
  ultimately show "store_ok w1"
    by (auto simp: store_ok_def m1 list_all_iff distinct_removeAll)
qed

lemma agregar_result:
  assumes t: "py_strip titulo = t" "t \<noteq> []" and a: "py_strip autor = a" "a \<noteq> []"
    and g: "py_strip genero = g" and y: "leer_anio u anio = (y, avisos)"
    and m: "members w = Some ids" and n: "libro_id \<notin> set ids"
    and w1: "w1 = agregar_libro u titulo autor anio genero libro_id w"
  shows "db w1 = (db w)(KEY_PREFIX @ libro_id \<mapsto> RString (json_dumps (nuevo_libro libro_id t a y g)),
                        ALL_BOOKS_KEY \<mapsto> RSet (ids @ [libro_id]))"
    and "cmds w1 = cmds w @ [SET (KEY_PREFIX @ libro_id) (json_dumps (nuevo_libro libro_id t a y g)),
                             SADD ALL_BOOKS_KEY libro_id]"
    and "out w1 = out w @ avisos @ [LibroAgregado t a (last5 libro_id)]"
    and "members w1 = Some (ids @ [libro_id])"
proof -
  have c: "db w ALL_BOOKS_KEY = None \<and> ids = [] \<or> db w ALL_BOOKS_KEY = Some (RSet ids)"
    using m by (auto simp: members_def split: option.splits rval.splits)
  then show "db w1 = (db w)(KEY_PREFIX @ libro_id \<mapsto> RString (json_dumps (nuevo_libro libro_id t a y g)),
                        ALL_BOOKS_KEY \<mapsto> RSet (ids @ [libro_id]))"
    and "cmds w1 = cmds w @ [SET (KEY_PREFIX @ libro_id) (json_dumps (nuevo_libro libro_id t a y g)),
                             SADD ALL_BOOKS_KEY libro_id]"
    and "out w1 = out w @ avisos @ [LibroAgregado t a (last5 libro_id)]"
    using t a g y n
    by (auto simp: w1 agregar_libro_def Let_def redis_sadd_def redis_set_def)
  then show "members w1 = Some (ids @ [libro_id])"
    by (simp add: members_def)
qed

lemma store_ok_agregar:
  assumes ok: "store_ok w" and m: "members w = Some ids" and n: "libro_id \<notin> set ids"
    and i: "libro_id \<noteq> []" and r: "registro_ok libro_id v"
    and d: "db w1 = (db w)(KEY_PREFIX @ libro_id \<mapsto> RString v,
                           ALL_BOOKS_KEY \<mapsto> RSet (ids @ [libro_id]))"
  shows "store_ok w1"
proof -
  have m1: "members w1 = Some (ids @ [libro_id])" by (simp add: members_def d)
  have "entrada_ok w1 j" if "entrada_ok w j" for j
    using that r i by (cases "j = libro_id") (simp_all add: entrada_ok_def d)
  moreover have "entrada_ok w1 libro_id" using r i by (simp add: entrada_ok_def d)
  moreover from ok m have "distinct ids" "\<forall>j\<in>set ids. entrada_ok w j"
    by (simp_all add: store_ok_def list_all_iff)
  ultimately show ?thesis
    using n by (auto simp: store_ok_def m1 list_all_iff)
qed

lemma registro_ok_nuevo:
  assumes "py_text i" and "py_text t" and "py_text a" and "py_text g"
  shows "registro_ok i (json_dumps (nuevo_libro i t a y g))"
proof (rule registro_ok_dumps)
  show "is_libro (nuevo_libro i t a y g)" using assms by (rule is_libro_nuevo_libro)
  show "subscript (nuevo_libro i t a y g) (ascii ''id'') = Inr (JStr i)"
    by (simp add: subscript_def nuevo_libro_def)
qed

lemma marcar_encontrado_absent:
  assumes "fst (buscar_libro_por_id_parcial s w) = Inr (JNull, None)"
  shows "db (marcar_encontrado s w) = db w"
proof -
  obtain r w1 where b: "buscar_libro_por_id_parcial s w = (r, w1)"
    by (cases "buscar_libro_por_id_parcial s w")
  with assms have "r = Inr (JNull, None)" by simp
  moreover from b have "db w1 = db w" using buscar_db[of s w] by simp
  ultimately show ?thesis by (simp add: marcar_encontrado_def b)
qed

lemma eliminar_encontrado_absent:
  assumes "fst (buscar_libro_por_id_parcial s w) = Inr (JNull, None)"
  shows "db (eliminar_encontrado s w) = db w"
proof -
  obtain r w1 where b: "buscar_libro_por_id_parcial s w = (r, w1)"
    by (cases "buscar_libro_por_id_parcial s w")
  with assms have "r = Inr (JNull, None)" by simp
  moreover from b have "db w1 = db w" using buscar_db[of s w] by simp
  ultimately show ?thesis by (simp add: eliminar_encontrado_def b)
qed

lemma buscar_cases:
  assumes ok: "store_ok w" and m: "members w = Some ids"
  shows "fst (buscar_libro_por_id_parcial s w) = Inr (JNull, None)
       \<or> (\<exists>i0 v0. find (\<lambda>i. endswith i s) ids = Some i0
              \<and> db w (KEY_PREFIX @ i0) = Some (RString v0))"
proof (cases "find (\<lambda>i. endswith i s) ids")
  case None
  then show ?thesis by (simp add: buscar_eq m)
next
  case (Some i0)
  then have "i0 \<in> set ids" by (simp add: find_in_set)
  with ok m have e: "entrada_ok w i0" by (rule store_ok_entrada)
  show ?thesis
  proof (cases "db w (KEY_PREFIX @ i0)")
    case None
    with Some show ?thesis by (simp add: buscar_eq m)
  next
    case (Some r)
    with e obtain v0 where "r = RString v0" by (auto simp: entrada_ok_def split: rval.splits)
    with Some \<open>find (\<lambda>i. endswith i s) ids = Some i0\<close> show ?thesis by simp
  qed
qed

lemma marcar_cases:
  assumes ok: "store_ok w" and m: "members w = Some ids"
    and w1: "w1 = snd (marcar_como_leido id_in w)"
  shows "db w1 = db w
       \<or> (\<exists>i0 v0 libro0. i0 \<in> set ids \<and> db w (KEY_PREFIX @ i0) = Some (RString v0)
             \<and> json_loads v0 = Inr libro0
             \<and> db w1 = (db w)(KEY_PREFIX @ i0 \<mapsto> RString (json_dumps (marcado libro0))))"
proof (cases "py_strip id_in = []")
  case True
  then show ?thesis
    using listar_libros_db[of w]
    by (cases "listar_libros w") (simp add: w1 marcar_como_leido_def split: option.splits)
next
  case False
  define wl where "wl = snd (listar_libros w)"
  have dl: "db wl = db w" by (simp add: wl_def)
  have okl: "store_ok wl" using ok by (simp add: store_ok_db[OF dl])
  have ml: "members wl = Some ids" using m by (simp add: members_db[OF dl])
  have e: "w1 = marcar_encontrado (py_strip id_in) wl"
    using marcar_como_leido_eq[OF ok m refl False] by (simp add: w1 wl_def)
  from buscar_cases[OF okl ml, of "py_strip id_in"] show ?thesis
  proof
    assume "fst (buscar_libro_por_id_parcial (py_strip id_in) wl) = Inr (JNull, None)"
    then show ?thesis
      using marcar_encontrado_absent[of "py_strip id_in" wl] by (simp add: e dl)
  next
    assume "\<exists>i0 v0. find (\<lambda>i. endswith i (py_strip id_in)) ids = Some i0
              \<and> db wl (KEY_PREFIX @ i0) = Some (RString v0)"
    then obtain i0 v0 where f: "find (\<lambda>i. endswith i (py_strip id_in)) ids = Some i0"
      and v: "db w (KEY_PREFIX @ i0) = Some (RString v0)"
      by (auto simp: dl)
    from buscar_ok[OF ok m f v] obtain libro0 where l: "json_loads v0 = Inr libro0" by blast
    from f have iin: "i0 \<in> set ids" by (simp add: find_in_set)
    note r = marcar_result[OF ok m refl False f v l w1]
    show ?thesis
    proof (cases "subscript libro0 (ascii ''leido'') = Inr (JBool True)")
      case True
      with r(2) show ?thesis by simp
    next
      case False
      with r(3) iin v l show ?thesis by blast
    qed
  qed
qed

lemma eliminar_cases:
  assumes ok: "store_ok w" and m: "members w = Some ids"
    and w1: "w1 = snd (eliminar_libro id_in w)"
  shows "db w1 = db w
       \<or> (\<exists>i0. i0 \<in> set ids
             \<and> db w1 = (db w)(KEY_PREFIX @ i0 := None,
                               ALL_BOOKS_KEY := (if removeAll i0 ids = [] then None
                                                 else Some (RSet (removeAll i0 ids)))))"
proof (cases "py_strip id_in = []")
  case True
  then show ?thesis
    using listar_libros_db[of w]
    by (cases "listar_libros w") (simp add: w1 eliminar_libro_def split: option.splits)
next
  case False
  define wl where "wl = snd (listar_libros w)"
  have dl: "db wl = db w" by (simp add: wl_def)
  have okl: "store_ok wl" using ok by (simp add: store_ok_db[OF dl])
  have ml: "members wl = Some ids" using m by (simp add: members_db[OF dl])
  have e: "w1 = eliminar_encontrado (py_strip id_in) wl"
    using eliminar_libro_eq[OF ok m refl False] by (simp add: w1 wl_def)
  from buscar_cases[OF okl ml, of "py_strip id_in"] show ?thesis
  proof
    assume "fst (buscar_libro_por_id_parcial (py_strip id_in) wl) = Inr (JNull, None)"
    then show ?thesis
      using eliminar_encontrado_absent[of "py_strip id_in" wl] by (simp add: e dl)
  next
    assume "\<exists>i0 v0. find (\<lambda>i. endswith i (py_strip id_in)) ids = Some i0
              \<and> db wl (KEY_PREFIX @ i0) = Some (RString v0)"
    then obtain i0 v0 where f: "find (\<lambda>i. endswith i (py_strip id_in)) ids = Some i0"
      and v: "db w (KEY_PREFIX @ i0) = Some (RString v0)"
      by (auto simp: dl)
    from f have iin: "i0 \<in> set ids" by (simp add: find_in_set)
    note r = eliminar_result[OF ok m refl False f v w1]
    from r(2) iin show ?thesis by blast
  qed
qed

text \<open>The year: a numeral of decimal digits is read as its number, leading zeros
  allowed; a year is read only from an input for which \<^verbatim>\<open>isdigit\<close> holds; and an input of
  digits one of which has no decimal value (a superscript digit) makes \<^verbatim>\<open>int\<close> raise, which
  is the warning of line 62.\<close>

lemma foldl_decimal:
  "\<forall>c\<in>set s. decimal u c = Some (c - 48) \<Longrightarrow>
   foldl (\<lambda>a c. 10 * a + the (decimal u c)) a0 s = foldl (\<lambda>a d. 10 * a + (d - 48)) a0 s"
  by (induction s arbitrary: a0) simp_all

lemma int_of_digits_ceros: "int_of_digits (replicate k 48 @ ds) = int_of_digits ds"
proof -
  have "foldl (\<lambda>a d. 10 * a + (d - 48)) (0::nat) (replicate k 48) = 0"
    by (induction k) simp_all
  then show ?thesis by (simp add: int_of_digits_def)
qed

lemma dec_digits_ne: "dec_digits n \<noteq> []"
  using dec_digits_Cons[of n] by auto

lemma leer_anio_decimal:
  assumes u: "\<forall>c. is_digit09 c \<longrightarrow> digit u c \<and> decimal u c = Some (c - 48)"
    and an: "anio = replicate k 48 @ dec_digits n"
    and l: "int_max_str_digits u = 0 \<or> length anio \<le> int_max_str_digits u"
  shows "leer_anio u anio = (Some (int n), [])"
proof -
  have d: "\<forall>c\<in>set anio. is_digit09 c"
    using dec_digits_all[of n] by (auto simp: an list_all_iff is_digit09_def)
  have ne: "anio \<noteq> []" by (simp add: an dec_digits_ne)
  from d u have dg: "\<forall>c\<in>set anio. digit u c" and dc: "\<forall>c\<in>set anio. decimal u c = Some (c - 48)"
    by simp_all
  have "foldl (\<lambda>a c. 10 * a + the (decimal u c)) 0 anio = int_of_digits anio"
    unfolding int_of_digits_def using dc by (rule foldl_decimal)
  also have "\<dots> = n" by (simp add: an int_of_digits_ceros int_of_dec_digits)
  finally have "py_int u anio = Some (int n)"
    using ne dc l by (auto simp: py_int_def list_all_iff)
  then show ?thesis
    using ne dg by (simp add: leer_anio_def py_isdigit_def list_all_iff)
qed

lemma leer_anio_solo_digitos:
  "fst (leer_anio u anio) \<noteq> None \<Longrightarrow> anio \<noteq> [] \<and> (\<forall>c\<in>set anio. digit u c)"
  by (auto simp: leer_anio_def py_isdigit_def list_all_iff split: if_splits option.splits)

lemma leer_anio_sin_valor:
  assumes "anio \<noteq> []" and "\<forall>c\<in>set anio. digit u c" and "\<exists>c\<in>set anio. decimal u c = None"
  shows "leer_anio u anio = (None, [AdvertenciaAnio])"
  using assms by (auto simp: leer_anio_def py_isdigit_def py_int_def list_all_iff)

lemma agregar_anio:
  assumes t: "py_strip titulo \<noteq> []" and a: "py_strip autor \<noteq> []"
    and w1: "w1 = agregar_libro u titulo autor anio genero libro_id w"
    and y: "y = fst (leer_anio u anio)"
  shows "cmds w1 = cmds w @ [SET (KEY_PREFIX @ libro_id)
                         (json_dumps (nuevo_libro libro_id (py_strip titulo) (py_strip autor) y
                            (py_strip genero))),
                       SADD ALL_BOOKS_KEY libro_id]"
    and "db w1 (KEY_PREFIX @ libro_id)
           = Some (RString (json_dumps (nuevo_libro libro_id (py_strip titulo) (py_strip autor) y
                (py_strip genero))))"
    and "\<exists>m. out w1 = out w @ snd (leer_anio u anio) @ [m] \<and> m \<noteq> AdvertenciaAnio"
proof -
  obtain y' avs where l: "leer_anio u anio = (y', avs)" by (cases "leer_anio u anio")
  obtain r w3 where
    sa: "redis_sadd ALL_BOOKS_KEY libro_id
           (redis_set (KEY_PREFIX @ libro_id)
              (json_dumps (nuevo_libro libro_id (py_strip titulo) (py_strip autor) y' (py_strip genero)))
              (w\<lparr>out := out w @ avs\<rparr>)) = (r, w3)"
    by (cases "redis_sadd ALL_BOOKS_KEY libro_id
           (redis_set (KEY_PREFIX @ libro_id)
              (json_dumps (nuevo_libro libro_id (py_strip titulo) (py_strip autor) y' (py_strip genero)))
              (w\<lparr>out := out w @ avs\<rparr>))")
  have e: "w1 = (case r of Inl e \<Rightarrow> imprimir (ErrorInsertar e) w3
                 | Inr n \<Rightarrow> imprimir (LibroAgregado (py_strip titulo) (py_strip autor) (last5 libro_id)) w3)"
    using t a by (simp add: w1 agregar_libro_def Let_def l sa)
  from sa have w3: "cmds w3 = cmds w @ [SET (KEY_PREFIX @ libro_id)
                         (json_dumps (nuevo_libro libro_id (py_strip titulo) (py_strip autor) y'
                            (py_strip genero))),
                       SADD ALL_BOOKS_KEY libro_id]"
      "db w3 (KEY_PREFIX @ libro_id)
           = Some (RString (json_dumps (nuevo_libro libro_id (py_strip titulo) (py_strip autor) y'
                (py_strip genero))))"
      "out w3 = out w @ avs"
    by (auto simp: redis_sadd_def split: option.splits rval.splits if_splits)
  show "cmds w1 = cmds w @ [SET (KEY_PREFIX @ libro_id)
                         (json_dumps (nuevo_libro libro_id (py_strip titulo) (py_strip autor) y
                            (py_strip genero))),
                       SADD ALL_BOOKS_KEY libro_id]"
    by (cases r) (simp_all add: e w3 y l)
  show "db w1 (KEY_PREFIX @ libro_id)
           = Some (RString (json_dumps (nuevo_libro libro_id (py_strip titulo) (py_strip autor) y
                (py_strip genero))))"
    by (cases r) (simp_all add: e w3 y l)
  show "\<exists>m. out w1 = out w @ snd (leer_anio u anio) @ [m] \<and> m \<noteq> AdvertenciaAnio"
    by (cases r) (simp_all add: e w3 l)
qed

lemma agregar_frame:
  assumes "k \<noteq> KEY_PREFIX @ libro_id" and "k \<noteq> ALL_BOOKS_KEY"
  shows "db (agregar_libro u titulo autor anio genero libro_id w) k = db w k"
  using assms
  by (auto simp: agregar_libro_def Let_def redis_sadd_def redis_set_def
      split: prod.splits option.splits rval.splits)

text \<open>With a single client the key that \<^verbatim>\<open>buscar_libro_por_id_parcial\<close> returns holds
  a value, so \<^verbatim>\<open>DEL\<close> reports one key deleted: line 214 is reached only when another client
  removes the key in between.\<close>

lemma delete_count_one:
  assumes "buscar_libro_por_id_parcial s w = (Inr (libro, Some k), w1)"
  shows "fst (redis_delete k w1) = 1"
proof -
  from assms have "db w1 = db w" using buscar_db[of s w] by simp
  moreover from assms have "\<exists>v. db w k = Some (RString v)"
    by (auto simp: buscar_eq split: option.splits rval.splits sum.splits if_splits)
  ultimately show ?thesis by (auto simp: redis_delete_def)
qed

text \<open>With no other client \<open>eliminar_libro_entre\<close> is \<open>eliminar_libro\<close>; when another client
  has removed the key, \<^verbatim>\<open>DEL\<close> reports no key deleted, nothing more is sent and the failure is
  printed.\<close>

lemma eliminar_encontrado_entre_solo:
  "eliminar_encontrado_entre (\<lambda>x. x) s w = eliminar_encontrado s w"
  by (simp add: eliminar_encontrado_entre_def eliminar_encontrado_def eliminar_clave_def
      split: prod.splits sum.splits option.splits)

lemma eliminar_libro_entre_solo:
  "eliminar_libro_entre (\<lambda>x. x) id_in w = eliminar_libro id_in w"
  by (simp add: eliminar_libro_entre_def eliminar_libro_def eliminar_encontrado_entre_solo Let_def
      split: prod.splits option.splits)

lemma eliminar_clave_cero:
  assumes "db w k = None"
  shows "fst (redis_delete k w) = 0"
    and "eliminar_clave libro (Some k) s w = imprimir NoSePudoEliminar (sent (DEL k) w)"
  using assms by (simp_all add: eliminar_clave_def redis_delete_def eliminar_indice_def)

lemma eliminar_entre_cero:
  assumes ok: "store_ok w" and m: "members w = Some ids"
    and s: "py_strip id_in = s" "s \<noteq> []"
    and f: "find (\<lambda>i. endswith i s) ids = Some i"
    and v: "db w (KEY_PREFIX @ i) = Some (RString v)"
    and o: "\<And>x. db (otros x) (KEY_PREFIX @ i) = None"
  obtains wb where "db wb = db w"
    and "cmds wb = cmds w @ [SMEMBERS ALL_BOOKS_KEY, MGET (map (\<lambda>i. KEY_PREFIX @ i) ids),
                             SMEMBERS ALL_BOOKS_KEY, GET (KEY_PREFIX @ i)]"
    and "out wb = out (snd (listar_libros w))"
    and "fst (redis_delete (KEY_PREFIX @ i) (otros wb)) = 0"
    and "eliminar_libro_entre otros id_in w
           = (None, imprimir NoSePudoEliminar (sent (DEL (KEY_PREFIX @ i)) (otros wb)))"
proof -
  define wl where "wl = snd (listar_libros w)"
  have dl: "db wl = db w" by (simp add: wl_def)
  have cl: "cmds wl = cmds w @ [SMEMBERS ALL_BOOKS_KEY, MGET (map (\<lambda>i. KEY_PREFIX @ i) ids)]"
    using listar_ok[OF ok m] by (simp add: wl_def)
  have okl: "store_ok wl" using ok by (simp add: store_ok_db[OF dl])
  have ml: "members wl = Some ids" using m by (simp add: members_db[OF dl])
  have vl: "db wl (KEY_PREFIX @ i) = Some (RString v)" using v by (simp add: dl)
  have e: "eliminar_libro_entre otros id_in w = (None, eliminar_encontrado_entre otros s wl)"
    using listar_ok[OF ok m] s
    by (cases "listar_libros w") (simp add: eliminar_libro_entre_def Let_def wl_def)
  define wb where "wb = sent (GET (KEY_PREFIX @ i)) (sent (SMEMBERS ALL_BOOKS_KEY) wl)"
  obtain libro where lib: "is_libro libro"
    and b: "buscar_libro_por_id_parcial s wl = (Inr (libro, Some (KEY_PREFIX @ i)), wb)"
    unfolding wb_def by (rule buscar_ok[OF okl ml f vl])
  have ee: "eliminar_encontrado_entre otros s wl
          = imprimir NoSePudoEliminar (sent (DEL (KEY_PREFIX @ i)) (otros wb))"
    by (simp add: eliminar_encontrado_entre_def b is_libro_truthy[OF lib]
          eliminar_clave_cero(2)[OF o])
  show ?thesis
  proof (rule that[of wb])
    show "db wb = db w" by (simp add: wb_def dl)
    show "cmds wb = cmds w @ [SMEMBERS ALL_BOOKS_KEY, MGET (map (\<lambda>i. KEY_PREFIX @ i) ids),
                             SMEMBERS ALL_BOOKS_KEY, GET (KEY_PREFIX @ i)]"
      by (simp add: wb_def cl)
    show "out wb = out (snd (listar_libros w))" by (simp add: wb_def wl_def)
    show "fst (redis_delete (KEY_PREFIX @ i) (otros wb)) = 0" by (rule eliminar_clave_cero(1)[OF o])
    show "eliminar_libro_entre otros id_in w
           = (None, imprimir NoSePudoEliminar (sent (DEL (KEY_PREFIX @ i)) (otros wb)))"
      by (simp add: e ee)
  qed
qed

text \<open>The empty store is well formed, and every option of the menu keeps the store well
  formed, when the identifier of a new book is new and the strings typed are texts.\<close>

lemma store_ok_main_opcion:
  assumes ok: "store_ok w" and m: "members w = Some ids"
    and fresh: "case opc of
                  Agregar t a y g n \<Rightarrow>
                    n \<notin> set ids \<and> n \<noteq> [] \<and> py_text n \<and> py_text (py_strip t)
                    \<and> py_text (py_strip a) \<and> py_text (py_strip g)
                | _ \<Rightarrow> True"
  shows "store_ok (snd (main_opcion u opc w))"
proof (cases opc)
  case (Agregar t a y g n)
  with fresh have n: "n \<notin> set ids" "n \<noteq> []" and tx: "py_text n" "py_text (py_strip t)"
    "py_text (py_strip a)" "py_text (py_strip g)" by simp_all
  show ?thesis
  proof (cases "py_strip t = [] \<or> py_strip a = []")
    case True
    then have "db (agregar_libro u t a y g n w) = db w"
      by (auto simp: agregar_libro_def Let_def)
    from store_ok_db[OF this] ok show ?thesis by (simp add: Agregar main_opcion_def)
  next
    case False
    obtain yy av where y: "leer_anio u y = (yy, av)" by (cases "leer_anio u y")
    from False have t: "py_strip t \<noteq> []" and a: "py_strip a \<noteq> []" by simp_all
    note r = agregar_result(1)[where genero = g, OF refl t refl a refl y m n(1) refl]
    have "registro_ok n (json_dumps (nuevo_libro n (py_strip t) (py_strip a) yy (py_strip g)))"
      using tx by (rule registro_ok_nuevo)
    from ok m n(1) n(2) this r have "store_ok (agregar_libro u t a y g n w)"
      by (rule store_ok_agregar)
    then show ?thesis by (simp add: Agregar main_opcion_def)
  qed
next
  case Listar
  with ok store_ok_db[OF listar_libros_db[of w]] show ?thesis by (simp add: main_opcion_def)
next
  case (MarcarLeido s)
  then have e: "snd (main_opcion u opc w) = snd (marcar_como_leido s w)"
    by (simp add: main_opcion_def)
  from marcar_cases[OF ok m refl, of s] show ?thesis
  proof
    assume "db (snd (marcar_como_leido s w)) = db w"
    from store_ok_db[OF this] ok show ?thesis by (simp add: e)
  next
    assume "\<exists>i0 v0 libro0. i0 \<in> set ids \<and> db w (KEY_PREFIX @ i0) = Some (RString v0)
             \<and> json_loads v0 = Inr libro0
             \<and> db (snd (marcar_como_leido s w))
                 = (db w)(KEY_PREFIX @ i0 \<mapsto> RString (json_dumps (marcado libro0)))"
    then obtain i0 v0 libro0 where i0: "i0 \<in> set ids"
      and v0: "db w (KEY_PREFIX @ i0) = Some (RString v0)" and l0: "json_loads v0 = Inr libro0"
      and d: "db (snd (marcar_como_leido s w))
                 = (db w)(KEY_PREFIX @ i0 \<mapsto> RString (json_dumps (marcado libro0)))"
      by blast
    from ok m i0 have en: "entrada_ok w i0" by (rule store_ok_entrada)
    with v0 l0 have lib: "is_libro libro0" and lid: "subscript libro0 (ascii ''id'') = Inr (JStr i0)"
      and ne: "i0 \<noteq> []"
      by (simp_all add: entrada_ok_def registro_ok_def)
    have "registro_ok i0 (json_dumps (marcado libro0))"
      using is_libro_marcado[OF lib] lid by (intro registro_ok_dumps) simp_all
    from store_ok_set(1)[OF ok this ne d] show ?thesis by (simp add: e)
  qed
next
  case (Eliminar s)
  then have e: "snd (main_opcion u opc w) = snd (eliminar_libro s w)"
    by (simp add: main_opcion_def)
  from eliminar_cases[OF ok m refl, of s] show ?thesis
  proof
    assume "db (snd (eliminar_libro s w)) = db w"
    from store_ok_db[OF this] ok show ?thesis by (simp add: e)
  next
    assume "\<exists>i0. i0 \<in> set ids
             \<and> db (snd (eliminar_libro s w))
                 = (db w)(KEY_PREFIX @ i0 := None,
                          ALL_BOOKS_KEY := (if removeAll i0 ids = [] then None
                                            else Some (RSet (removeAll i0 ids))))"
    then obtain i0 where
      d: "db (snd (eliminar_libro s w))
                 = (db w)(KEY_PREFIX @ i0 := None,
                          ALL_BOOKS_KEY := (if removeAll i0 ids = [] then None
                                            else Some (RSet (removeAll i0 ids))))"
      by blast
    from store_ok_del(1)[OF ok m d] show ?thesis by (simp add: e)
  qed
next
  case Salir
  with ok store_ok_db[of "imprimir Despedida w" w] show ?thesis by (simp add: main_opcion_def)
next
  case Otra
  with ok store_ok_db[of "imprimir OpcionNoValida w" w] show ?thesis by (simp add: main_opcion_def)
qed

subsection \<open>The commands sent\<close>

lemma starts_with_iff: "starts_with k p \<longleftrightarrow> (\<exists>i. k = p @ i)"
proof
  assume "starts_with k p"
  then have "k = p @ drop (length p) k"
    by (metis append_take_drop_id starts_with_def)
  then show "\<exists>i. k = p @ i" ..
next
  assume "\<exists>i. k = p @ i"
  then show "starts_with k p" by (auto simp: starts_with_def)
qed

lemma starts_with_key [simp]: "starts_with (KEY_PREFIX @ i) (ascii ''libro:'')"
  by (simp add: starts_with_def KEY_PREFIX_def)

lemma extiende_refl [simp]: "extiende w w"
  by (simp add: extiende_def)

lemma extiende_sent: "cmd_ok c \<Longrightarrow> extiende w w' \<Longrightarrow> extiende w (sent c w')"
  by (auto simp: extiende_def)

lemma extiende_imprimir [simp]: "extiende w (imprimir m w') = extiende w w'"
  by (simp add: extiende_def)

lemma extiende_cmds: "cmds w'' = cmds w' \<Longrightarrow> extiende w w' \<Longrightarrow> extiende w w''"
  by (simp add: extiende_def)

lemma extiende_nuevos:
  "extiende w w' \<Longrightarrow> take (length (cmds w)) (cmds w') = cmds w \<and> list_all cmd_ok (nuevos w w')"
  by (auto simp: extiende_def nuevos_def)

lemma cmd_ok_simps [simp]:
  "cmd_ok (SET (KEY_PREFIX @ i) v)" "cmd_ok (GET (KEY_PREFIX @ i))" "cmd_ok (DEL (KEY_PREFIX @ i))"
  "cmd_ok (MGET (map (\<lambda>i. KEY_PREFIX @ i) ids))"
  "cmd_ok (SADD ALL_BOOKS_KEY m)" "cmd_ok (SMEMBERS ALL_BOOKS_KEY)" "cmd_ok (SREM ALL_BOOKS_KEY m)"
  by (simp_all add: cmd_ok_def list_all_iff) (simp_all add: ALL_BOOKS_KEY_def)

lemma extiende_redis_set: "extiende w w' \<Longrightarrow> extiende w (redis_set (KEY_PREFIX @ i) v w')"
  by (auto simp: extiende_def)

lemma extiende_redis_sadd: "extiende w w' \<Longrightarrow> extiende w (snd (redis_sadd ALL_BOOKS_KEY m w'))"
  by (auto simp: extiende_def redis_sadd_def split: option.splits rval.splits)

lemma extiende_redis_srem: "extiende w w' \<Longrightarrow> extiende w (snd (redis_srem ALL_BOOKS_KEY m w'))"
  by (auto simp: extiende_def redis_srem_def split: option.splits rval.splits)

lemma extiende_redis_delete: "extiende w w' \<Longrightarrow> extiende w (snd (redis_delete (KEY_PREFIX @ i) w'))"
  by (auto simp: extiende_def redis_delete_def split: option.splits)

lemma extiende_buscar: "extiende w w' \<Longrightarrow> extiende w (snd (buscar_libro_por_id_parcial s w'))"
  by (auto simp: buscar_eq intro!: extiende_sent split: option.splits rval.splits sum.splits)

lemma buscar_key:
  "buscar_libro_por_id_parcial s w = (Inr (libro, Some k), w1) \<Longrightarrow> \<exists>i. k = KEY_PREFIX @ i"
  by (auto simp: buscar_eq split: option.splits rval.splits sum.splits if_splits)

lemma extiende_libros_recuperados: "extiende w w' \<Longrightarrow> extiende w (snd (libros_recuperados w'))"
  by (auto simp: libros_recuperados_eq intro!: extiende_sent split: option.splits sum.splits)

lemma extiende_listar: "extiende w w' \<Longrightarrow> extiende w (snd (listar_libros w'))"
proof -
  assume e: "extiende w w'"
  obtain r w1 where l: "libros_recuperados w' = (r, w1)" by (cases "libros_recuperados w'")
  with extiende_libros_recuperados[OF e] have "extiende w w1" by simp
  then show ?thesis
    by (simp add: listar_libros_def l split: sum.splits prod.splits)
qed

lemma extiende_agregar: "extiende w w' \<Longrightarrow> extiende w (agregar_libro u t a y g n w')"
proof -
  assume e: "extiende w w'"
  have o: "extiende w (w'\<lparr>out := x\<rparr>)" for x using e by (simp add: extiende_def)
  have "extiende w (snd (redis_sadd ALL_BOOKS_KEY m (redis_set (KEY_PREFIX @ i) v (w'\<lparr>out := x\<rparr>))))"
    for m i v x by (rule extiende_redis_sadd[OF extiende_redis_set[OF o]])
  then have "\<And>m i v x r w2.
      redis_sadd ALL_BOOKS_KEY m (redis_set (KEY_PREFIX @ i) v (w'\<lparr>out := x\<rparr>)) = (r, w2)
      \<Longrightarrow> extiende w w2"
    by (metis snd_conv)
  with e show ?thesis
    by (auto simp: agregar_libro_def Let_def split: prod.splits sum.splits)
qed

lemma extiende_actualizar:
  "extiende w w' \<Longrightarrow> extiende w (snd (actualizar_libro libro (Some (KEY_PREFIX @ i)) kwargs w'))"
  by (auto simp: actualizar_libro_def Let_def extiende_redis_set split: json.splits)

lemma extiende_marcar_encontrado: "extiende w w' \<Longrightarrow> extiende w (marcar_encontrado s w')"
proof -
  assume e: "extiende w w'"
  obtain r w1 where b: "buscar_libro_por_id_parcial s w' = (r, w1)"
    by (cases "buscar_libro_por_id_parcial s w'")
  with extiende_buscar[OF e, of s] have e1: "extiende w w1" by simp
  show ?thesis
  proof (cases r)
    case (Inl err)
    with e1 show ?thesis by (simp add: marcar_encontrado_def b)
  next
    case (Inr p)
    obtain libro key where p: "p = (libro, key)" by (cases p)
    show ?thesis
    proof (cases key)
      case None
      with e1 show ?thesis
        by (auto simp: marcar_encontrado_def b Inr p actualizar_libro_def Let_def
            split: sum.splits json.splits)
    next
      case (Some k)
      with buscar_key[of s w' libro k w1] b Inr p obtain i where k: "k = KEY_PREFIX @ i" by auto
      obtain r2 w2 where a: "actualizar_libro libro (Some (KEY_PREFIX @ i))
                               [(ascii ''leido'', JBool True)] w1 = (r2, w2)"
        by (cases "actualizar_libro libro (Some (KEY_PREFIX @ i)) [(ascii ''leido'', JBool True)] w1")
      with extiende_actualizar[OF e1] have "extiende w w2" by (metis snd_conv)
      with e1 show ?thesis
        by (auto simp: marcar_encontrado_def b Inr p Some k a split: sum.splits)
    qed
  qed
qed

lemma extiende_eliminar_indice:
  "extiende w w' \<Longrightarrow> extiende w (eliminar_indice n libro s w')"
proof -
  assume e: "extiende w w'"
  have "extiende w (snd (redis_srem ALL_BOOKS_KEY m w'))" for m by (rule extiende_redis_srem[OF e])
  then have "\<And>m r w2. redis_srem ALL_BOOKS_KEY m w' = (r, w2) \<Longrightarrow> extiende w w2"
    by (metis snd_conv)
  with e show ?thesis
    by (auto simp: eliminar_indice_def split: sum.splits prod.splits)
qed

lemma extiende_eliminar_encontrado: "extiende w w' \<Longrightarrow> extiende w (eliminar_encontrado s w')"
proof -
  assume e: "extiende w w'"
  obtain r w1 where b: "buscar_libro_por_id_parcial s w' = (r, w1)"
    by (cases "buscar_libro_por_id_parcial s w'")
  with extiende_buscar[OF e, of s] have e1: "extiende w w1" by simp
  show ?thesis
  proof (cases r)
    case (Inl err)
    with e1 show ?thesis by (simp add: eliminar_encontrado_def b)
  next
    case (Inr p)
    obtain libro key where p: "p = (libro, key)" by (cases p)
    show ?thesis
    proof (cases key)
      case None
      with e1 show ?thesis by (simp add: eliminar_encontrado_def b Inr p)
    next
      case (Some k)
      with buscar_key[of s w' libro k w1] b Inr p obtain i where k: "k = KEY_PREFIX @ i" by auto
      obtain n w2 where d: "redis_delete (KEY_PREFIX @ i) w1 = (n, w2)"
        by (cases "redis_delete (KEY_PREFIX @ i) w1")
      with extiende_redis_delete[OF e1, of i] have "extiende w w2" by simp
      then have "extiende w (eliminar_indice n libro s w2)" by (rule extiende_eliminar_indice)
      with e1 show ?thesis
        by (simp add: eliminar_encontrado_def b Inr p Some k d)
    qed
  qed
qed

lemma extiende_marcar: "extiende w (snd (marcar_como_leido s w))"
proof -
  obtain r w1 where l: "listar_libros w = (r, w1)" by (cases "listar_libros w")
  with extiende_listar[OF extiende_refl, of w] have "extiende w w1" by simp
  then show ?thesis
    using extiende_marcar_encontrado[of w w1]
    by (simp add: marcar_como_leido_def l Let_def split: option.splits)
qed

lemma extiende_eliminar: "extiende w (snd (eliminar_libro s w))"
proof -
  obtain r w1 where l: "listar_libros w = (r, w1)" by (cases "listar_libros w")
  with extiende_listar[OF extiende_refl, of w] have "extiende w w1" by simp
  then show ?thesis
    using extiende_eliminar_encontrado[of w w1]
    by (simp add: eliminar_libro_def l Let_def split: option.splits)
qed

lemma extiende_main: "extiende w (snd (main_opcion u opc w))"
  by (cases opc)
     (simp_all add: main_opcion_def extiende_agregar extiende_listar extiende_marcar extiende_eliminar)

subsection \<open>The example stores\<close>

lemma strip_ejemplos:
  "py_strip (ascii ''Dune'') = ascii ''Dune''" "py_strip (ascii ''Herbert'') = ascii ''Herbert''"
  "py_strip (ascii ''Sci-Fi'') = ascii ''Sci-Fi''" "py_strip (ascii ''Emma'') = ascii ''Emma''"
  "py_strip (ascii ''Austen'') = ascii ''Austen''" "py_strip [] = []"
  "py_strip (ascii '' b12 '') = ascii ''b12''" "py_strip (ascii ''12'') = ascii ''12''"
  "py_strip (ascii ''   '') = []"
  by (simp_all add: py_strip_def py_isspace_def ascii_def)

lemma leer_anio_ejemplos:
  "leer_anio ascii_ucd (ascii ''1965'') = (Some 1965, [])"
  "leer_anio ascii_ucd [] = (None, [])"
  by (simp_all add: leer_anio_def py_isdigit_def py_int_def ascii_ucd_def is_digit09_def ascii_def)

lemma dec_digits_ejemplos:
  "dec_digits 1965 = ascii ''1965''" "dec_digits 7 = ascii ''7''"
  by (simp_all add: dec_digits.simps ascii_def)

lemma py_text_ejemplos:
  "py_text (ascii ''ab12'')" "py_text (ascii ''cd12'')" "py_text (ascii ''Dune'')"
  "py_text (ascii ''Herbert'')" "py_text (ascii ''Sci-Fi'')" "py_text (ascii ''Emma'')"
  "py_text (ascii ''Austen'')"
  by (simp_all add: py_text_def ascii_def is_high_def)

lemma mundo_vacio_ok: "store_ok mundo_vacio" "members mundo_vacio = Some []"
  by (simp_all add: store_ok_def members_def mundo_vacio_def)

lemma mundo_uno_db:
  "db mundo_uno = [KEY_PREFIX @ ascii ''ab12'' \<mapsto> RString (json_dumps libro_uno),
                   ALL_BOOKS_KEY \<mapsto> RSet [ascii ''ab12'']]"
  and mundo_uno_members: "members mundo_uno = Some [ascii ''ab12'']"
  using agregar_result[OF strip_ejemplos(1) _ strip_ejemplos(2) _ strip_ejemplos(3)
          leer_anio_ejemplos(1) mundo_vacio_ok(2) _ mundo_uno_def]
  by (simp_all add: libro_uno_def mundo_vacio_def)

lemma mundo_uno_ok: "store_ok mundo_uno"
proof (rule store_ok_agregar[OF mundo_vacio_ok])
  show "registro_ok (ascii ''ab12'') (json_dumps libro_uno)"
    unfolding libro_uno_def by (rule registro_ok_nuevo) (simp_all add: py_text_ejemplos)
  show "db mundo_uno = (db mundo_vacio)(KEY_PREFIX @ ascii ''ab12'' \<mapsto> RString (json_dumps libro_uno),
          ALL_BOOKS_KEY \<mapsto> RSet ([] @ [ascii ''ab12'']))"
    by (simp add: mundo_uno_db mundo_vacio_def)
qed simp_all

lemma mundo_dos_db:
  "db mundo_dos = [KEY_PREFIX @ ascii ''ab12'' \<mapsto> RString (json_dumps libro_uno),
                   KEY_PREFIX @ ascii ''cd12'' \<mapsto> RString (json_dumps libro_dos),
                   ALL_BOOKS_KEY \<mapsto> RSet [ascii ''ab12'', ascii ''cd12'']]"
  and mundo_dos_members: "members mundo_dos = Some [ascii ''ab12'', ascii ''cd12'']"
  using agregar_result[OF strip_ejemplos(4) _ strip_ejemplos(5) _ strip_ejemplos(6)
          leer_anio_ejemplos(2) mundo_uno_members _ mundo_dos_def]
  by (simp_all add: libro_dos_def mundo_uno_db fun_upd_twist)

lemma mundo_dos_ok: "store_ok mundo_dos"
proof (rule store_ok_agregar[OF mundo_uno_ok mundo_uno_members])
  show "registro_ok (ascii ''cd12'') (json_dumps libro_dos)"
    unfolding libro_dos_def by (rule registro_ok_nuevo) (simp_all add: py_text_ejemplos)
  show "db mundo_dos = (db mundo_uno)(KEY_PREFIX @ ascii ''cd12'' \<mapsto> RString (json_dumps libro_dos),
          ALL_BOOKS_KEY \<mapsto> RSet ([ascii ''ab12''] @ [ascii ''cd12'']))"
    by (simp add: mundo_dos_db mundo_uno_db fun_upd_twist)
qed simp_all

lemma endswith_ejemplos:
  "endswith (ascii ''ab12'') (ascii ''12'')" "endswith (ascii ''cd12'') (ascii ''12'')"
  "endswith (ascii ''ab12'') (ascii ''b12'')" "\<not> endswith (ascii ''cd12'') (ascii ''b12'')"
  "\<not> endswith (ascii ''ab12'') (ascii ''zz'')"
  by (simp_all add: endswith_def ascii_def)

lemma KEY_PREFIX_ascii: "KEY_PREFIX @ ascii s = ascii (''libro:'' @ s)"
  by (simp add: KEY_PREFIX_def ascii_def)

lemma find_ejemplos:
  "find (\<lambda>i. endswith i (ascii ''12'')) [ascii ''ab12'', ascii ''cd12''] = Some (ascii ''ab12'')"
  "find (\<lambda>i. endswith i (ascii ''12'')) [ascii ''cd12''] = Some (ascii ''cd12'')"
  "find (\<lambda>i. endswith i (ascii ''b12'')) [ascii ''ab12''] = Some (ascii ''ab12'')"
  by (simp_all add: endswith_ejemplos)

lemma db_ejemplos:
  "db mundo_uno (KEY_PREFIX @ ascii ''ab12'') = Some (RString (json_dumps libro_uno))"
  "db mundo_dos (KEY_PREFIX @ ascii ''ab12'') = Some (RString (json_dumps libro_uno))"
  "db mundo_dos (KEY_PREFIX @ ascii ''cd12'') = Some (RString (json_dumps libro_dos))"
  by (simp_all add: mundo_uno_db mundo_dos_db)

lemma libro_ejemplos:
  "is_libro libro_uno" "is_libro libro_dos"
  "json_loads (json_dumps libro_uno) = Inr libro_uno"
  "json_loads (json_dumps libro_dos) = Inr libro_dos"
proof -
  show "is_libro libro_uno" "is_libro libro_dos"
    unfolding libro_uno_def libro_dos_def
    by (rule is_libro_nuevo_libro; simp add: py_text_ejemplos)+
  then show "json_loads (json_dumps libro_uno) = Inr libro_uno"
    "json_loads (json_dumps libro_dos) = Inr libro_dos"
    by (simp_all add: is_libro_roundtrip)
qed

section \<open>The claims\<close>

text \<open>
  C6. For every record, decoding the JSON encoding of the record gives the record back,
  every field as it was; a year and a genre that are \<^verbatim>\<open>None\<close> stay \<^verbatim>\<open>None\<close>. A record is
  a dict of the six fields whose strings are texts (\<open>is_libro\<close>).
\<close>

theorem C6_json_roundtrip:
  assumes "is_libro libro"
  shows "json_loads (json_dumps libro) = Inr libro"
  using assms by (rule is_libro_roundtrip)

theorem C6_json_roundtrip_witness:
  "is_libro (nuevo_libro (ascii ''ab12'') (ascii ''Dune'') (ascii ''Herbert'') None [])
   \<and> json_loads (json_dumps (nuevo_libro (ascii ''ab12'') (ascii ''Dune'') (ascii ''Herbert'') None []))
       = Inr (nuevo_libro (ascii ''ab12'') (ascii ''Dune'') (ascii ''Herbert'') None [])
   \<and> subscript (nuevo_libro (ascii ''ab12'') (ascii ''Dune'') (ascii ''Herbert'') None [])
        (ascii ''anio_publicacion'') = Inr JNull
   \<and> subscript (nuevo_libro (ascii ''ab12'') (ascii ''Dune'') (ascii ''Herbert'') None [])
        (ascii ''genero'') = Inr JNull"
proof -
  have t: "py_text (ascii ''ab12'')" "py_text (ascii ''Dune'')" "py_text (ascii ''Herbert'')"
    by (simp_all add: py_text_def ascii_def is_high_def)
  have l: "is_libro (nuevo_libro (ascii ''ab12'') (ascii ''Dune'') (ascii ''Herbert'') None [])"
    by (rule is_libro_nuevo_libro) (simp_all add: t)
  have s: "subscript (nuevo_libro (ascii ''ab12'') (ascii ''Dune'') (ascii ''Herbert'') None [])
             (ascii ''anio_publicacion'') = Inr JNull"
     "subscript (nuevo_libro (ascii ''ab12'') (ascii ''Dune'') (ascii ''Herbert'') None [])
             (ascii ''genero'') = Inr JNull"
    by (simp_all add: subscript_def nuevo_libro_def)
  from l C6_json_roundtrip[OF l] s show ?thesis by blast
qed

text \<open>
  C4. When the title or the author is empty after \<^verbatim>\<open>strip()\<close>, \<^verbatim>\<open>agregar_libro\<close> prints the
  validation message and returns: nothing is sent to the store, nothing is stored, and no
  identifier is announced.
\<close>

theorem C4_agregar_campos_vacios:
  assumes "py_strip titulo = [] \<or> py_strip autor = []"
  shows "agregar_libro u titulo autor anio genero libro_id w = imprimir ErrorCamposVacios w
       \<and> db (agregar_libro u titulo autor anio genero libro_id w) = db w
       \<and> cmds (agregar_libro u titulo autor anio genero libro_id w) = cmds w
       \<and> out (agregar_libro u titulo autor anio genero libro_id w) = out w @ [ErrorCamposVacios]"
  using assms by (auto simp: agregar_libro_def imprimir_def Let_def)

theorem C4_agregar_campos_vacios_witness:
  "(py_strip (ascii ''  '') = [] \<or> py_strip (ascii ''Herbert'') = [])
   \<and> agregar_libro ascii_ucd (ascii ''  '') (ascii ''Herbert'') (ascii ''1965'') [] (ascii ''ab12'')
        mundo_vacio = imprimir ErrorCamposVacios mundo_vacio
   \<and> db (imprimir ErrorCamposVacios mundo_vacio) = Map.empty
   \<and> cmds (imprimir ErrorCamposVacios mundo_vacio) = []"
proof -
  have e: "py_strip (ascii ''  '') = [] \<or> py_strip (ascii ''Herbert'') = []"
    by (simp add: py_strip_def py_isspace_def ascii_def)
  from e C4_agregar_campos_vacios[OF e] show ?thesis
    by (simp add: imprimir_def mundo_vacio_def)
qed

text \<open>
  C7. In \<^verbatim>\<open>agregar_libro\<close> the year is read from the input only when \<^verbatim>\<open>isdigit\<close> holds of
  it: a year that is not \<^verbatim>\<open>None\<close> comes from a non-empty input of digits, and an input of
  decimal digits is read as the number it writes. An input that is empty or has a character
  that is not a digit (a sign, a space) gives \<^verbatim>\<open>None\<close>, without a warning or an error. In
  every case \<^verbatim>\<open>agregar_libro\<close> goes on: it stores the record with the year read and adds
  the identifier to the index.
\<close>

theorem C7_anio:
  assumes t: "py_strip titulo \<noteq> []" and a: "py_strip autor \<noteq> []"
    and y: "y = fst (leer_anio u anio)"
    and w1: "w1 = agregar_libro u titulo autor anio genero libro_id w"
  shows "(y \<noteq> None \<longrightarrow> anio \<noteq> [] \<and> (\<forall>c\<in>set anio. digit u c))
       \<and> ((\<forall>c. is_digit09 c \<longrightarrow> digit u c \<and> decimal u c = Some (c - 48))
            \<and> anio = replicate k 48 @ dec_digits n
            \<and> (int_max_str_digits u = 0 \<or> length anio \<le> int_max_str_digits u)
          \<longrightarrow> leer_anio u anio = (Some (int n), [])
              \<and> subscript (nuevo_libro libro_id (py_strip titulo) (py_strip autor) y (py_strip genero))
                   (ascii ''anio_publicacion'') = Inr (JInt (int n)))
       \<and> (anio = [] \<or> (\<exists>c\<in>set anio. \<not> digit u c)
          \<longrightarrow> leer_anio u anio = (None, [])
              \<and> subscript (nuevo_libro libro_id (py_strip titulo) (py_strip autor) y (py_strip genero))
                   (ascii ''anio_publicacion'') = Inr JNull
              \<and> AdvertenciaAnio \<notin> set (drop (length (out w)) (out w1)))
       \<and> cmds w1
           = cmds w @ [SET (KEY_PREFIX @ libro_id)
                         (json_dumps (nuevo_libro libro_id (py_strip titulo) (py_strip autor) y
                            (py_strip genero))),
                       SADD ALL_BOOKS_KEY libro_id]
       \<and> db w1 (KEY_PREFIX @ libro_id)
           = Some (RString (json_dumps (nuevo_libro libro_id (py_strip titulo) (py_strip autor) y
                (py_strip genero))))"
proof -
  note ag = agregar_anio[OF t a w1 y]
  have p1: "y \<noteq> None \<longrightarrow> anio \<noteq> [] \<and> (\<forall>c\<in>set anio. digit u c)"
    unfolding y using leer_anio_solo_digitos[of u anio] by blast
  have p2: "leer_anio u anio = (Some (int n), [])
              \<and> subscript (nuevo_libro libro_id (py_strip titulo) (py_strip autor) y (py_strip genero))
                   (ascii ''anio_publicacion'') = Inr (JInt (int n))"
    if that: "(\<forall>c. is_digit09 c \<longrightarrow> digit u c \<and> decimal u c = Some (c - 48))
            \<and> anio = replicate k 48 @ dec_digits n
            \<and> (int_max_str_digits u = 0 \<or> length anio \<le> int_max_str_digits u)"
  proof -
    from that have h1: "\<forall>c. is_digit09 c \<longrightarrow> digit u c \<and> decimal u c = Some (c - 48)"
      and h2: "anio = replicate k 48 @ dec_digits n"
      and h3: "int_max_str_digits u = 0 \<or> length anio \<le> int_max_str_digits u"
      by blast+
    have "leer_anio u anio = (Some (int n), [])"
      using h1 h2 h3 by (rule leer_anio_decimal)
    then show ?thesis by (simp add: y subscript_def nuevo_libro_def)
  qed
  have p3: "leer_anio u anio = (None, [])
              \<and> subscript (nuevo_libro libro_id (py_strip titulo) (py_strip autor) y (py_strip genero))
                   (ascii ''anio_publicacion'') = Inr JNull
              \<and> AdvertenciaAnio \<notin> set (drop (length (out w)) (out w1))"
    if nd: "anio = [] \<or> (\<exists>c\<in>set anio. \<not> digit u c)"
  proof -
    note l = leer_anio_no_digito[OF nd]
    from ag(3) obtain m where "out w1 = out w @ [m]" "m \<noteq> AdvertenciaAnio" by (auto simp: l)
    then show ?thesis by (simp add: l y subscript_def nuevo_libro_def)
  qed
  show ?thesis
    by (rule conjI[OF p1 conjI[OF impI[OF p2] conjI[OF impI[OF p3] conjI[OF ag(1) ag(2)]]]])
qed

theorem C7_anio_witness:
  "leer_anio ascii_ucd (ascii ''1965'') = (Some 1965, [])
   \<and> db (agregar_libro ascii_ucd (ascii ''Dune'') (ascii ''Herbert'') (ascii ''1965'') (ascii ''Sci-Fi'')
           (ascii ''ab12'') mundo_vacio) (KEY_PREFIX @ ascii ''ab12'')
       = Some (RString (json_dumps (nuevo_libro (ascii ''ab12'') (ascii ''Dune'') (ascii ''Herbert'')
            (Some 1965) (ascii ''Sci-Fi''))))
   \<and> leer_anio ascii_ucd (ascii ''007'') = (Some 7, [])
   \<and> leer_anio ascii_ucd [] = (None, [])
   \<and> leer_anio ascii_ucd (ascii ''-5'') = (None, [])
   \<and> leer_anio ascii_ucd (ascii '' 1965'') = (None, [])
   \<and> leer_anio ascii_ucd (ascii ''19a5'') = (None, [])
   \<and> cmds (agregar_libro ascii_ucd (ascii ''Dune'') (ascii ''Herbert'') (ascii ''19a5'') []
             (ascii ''ab12'') mundo_vacio)
       = [SET (KEY_PREFIX @ ascii ''ab12'')
            (json_dumps (nuevo_libro (ascii ''ab12'') (ascii ''Dune'') (ascii ''Herbert'') None [])),
          SADD ALL_BOOKS_KEY (ascii ''ab12'')]
   \<and> db (agregar_libro ascii_ucd (ascii ''Dune'') (ascii ''Herbert'') (ascii ''19a5'') []
           (ascii ''ab12'') mundo_vacio) (KEY_PREFIX @ ascii ''ab12'')
       = Some (RString
           (json_dumps (nuevo_libro (ascii ''ab12'') (ascii ''Dune'') (ascii ''Herbert'') None [])))"
proof -
  have t: "py_strip (ascii ''Dune'') \<noteq> []" and a: "py_strip (ascii ''Herbert'') \<noteq> []"
    by (simp_all add: strip_ejemplos)
  have e1: "ascii ''1965'' = replicate 0 48 @ dec_digits 1965"
    and e2: "ascii ''007'' = replicate 2 48 @ dec_digits 7"
    by (simp_all add: dec_digits_ejemplos ascii_def numeral_2_eq_2)
  have n: "\<exists>c\<in>set (ascii ''-5''). \<not> digit ascii_ucd c"
    "\<exists>c\<in>set (ascii '' 1965''). \<not> digit ascii_ucd c"
    "\<exists>c\<in>set (ascii ''19a5''). \<not> digit ascii_ucd c"
    by (simp_all add: ascii_def ascii_ucd_def is_digit09_def)
  note c1 = C7_anio[OF t a refl refl, of ascii_ucd "ascii ''1965''" 0 1965 "ascii ''ab12''"
              "ascii ''Sci-Fi''" mundo_vacio]
  note c2 = C7_anio[OF t a refl refl, of ascii_ucd "ascii ''007''" 2 7 "[]" "[]" mundo_vacio]
  note c3 = C7_anio[OF t a refl refl, of ascii_ucd "[]" 0 0 "[]" "[]" mundo_vacio]
  note c4 = C7_anio[OF t a refl refl, of ascii_ucd "ascii ''-5''" 0 0 "[]" "[]" mundo_vacio]
  note c5 = C7_anio[OF t a refl refl, of ascii_ucd "ascii '' 1965''" 0 0 "[]" "[]" mundo_vacio]
  note c6 = C7_anio[OF t a refl refl, of ascii_ucd "ascii ''19a5''" 0 0 "ascii ''ab12''" "[]" mundo_vacio]
  have h1: "(\<forall>c. is_digit09 c \<longrightarrow> digit ascii_ucd c \<and> decimal ascii_ucd c = Some (c - 48))
            \<and> ascii ''1965'' = replicate 0 48 @ dec_digits 1965
            \<and> (int_max_str_digits ascii_ucd = 0
                \<or> length (ascii ''1965'') \<le> int_max_str_digits ascii_ucd)"
    by (simp add: ascii_ucd_def dec_digits_ejemplos ascii_def)
  have h2: "(\<forall>c. is_digit09 c \<longrightarrow> digit ascii_ucd c \<and> decimal ascii_ucd c = Some (c - 48))
            \<and> ascii ''007'' = replicate 2 48 @ dec_digits 7
            \<and> (int_max_str_digits ascii_ucd = 0
                \<or> length (ascii ''007'') \<le> int_max_str_digits ascii_ucd)"
    by (simp add: ascii_ucd_def dec_digits_ejemplos ascii_def numeral_2_eq_2)
  have l1: "leer_anio ascii_ucd (ascii ''1965'') = (Some (int 1965), [])"
    using c1 h1 by blast
  have l2: "leer_anio ascii_ucd (ascii ''007'') = (Some (int 7), [])"
    using c2 h2 by blast
  have l3: "leer_anio ascii_ucd [] = (None, [])" using c3 by blast
  have l4: "leer_anio ascii_ucd (ascii ''-5'') = (None, [])" using c4 n(1) by blast
  have l5: "leer_anio ascii_ucd (ascii '' 1965'') = (None, [])" using c5 n(2) by blast
  have l6: "leer_anio ascii_ucd (ascii ''19a5'') = (None, [])" using c6 n(3) by blast
  from c1 have d1: "db (agregar_libro ascii_ucd (ascii ''Dune'') (ascii ''Herbert'') (ascii ''1965'')
           (ascii ''Sci-Fi'') (ascii ''ab12'') mundo_vacio) (KEY_PREFIX @ ascii ''ab12'')
       = Some (RString (json_dumps (nuevo_libro (ascii ''ab12'') (py_strip (ascii ''Dune''))
            (py_strip (ascii ''Herbert'')) (fst (leer_anio ascii_ucd (ascii ''1965'')))
            (py_strip (ascii ''Sci-Fi'')))))"
    by blast
  from c6 have d6: "cmds (agregar_libro ascii_ucd (ascii ''Dune'') (ascii ''Herbert'') (ascii ''19a5'') []
             (ascii ''ab12'') mundo_vacio)
       = cmds mundo_vacio @ [SET (KEY_PREFIX @ ascii ''ab12'')
            (json_dumps (nuevo_libro (ascii ''ab12'') (py_strip (ascii ''Dune''))
               (py_strip (ascii ''Herbert'')) (fst (leer_anio ascii_ucd (ascii ''19a5''))) (py_strip []))),
          SADD ALL_BOOKS_KEY (ascii ''ab12'')]"
    and d6': "db (agregar_libro ascii_ucd (ascii ''Dune'') (ascii ''Herbert'') (ascii ''19a5'') []
           (ascii ''ab12'') mundo_vacio) (KEY_PREFIX @ ascii ''ab12'')
       = Some (RString
           (json_dumps (nuevo_libro (ascii ''ab12'') (py_strip (ascii ''Dune''))
               (py_strip (ascii ''Herbert'')) (fst (leer_anio ascii_ucd (ascii ''19a5''))) (py_strip []))))"
    by blast+
  from d1 d6 d6' l1 l2 l3 l4 l5 l6 show ?thesis
    by (simp add: strip_ejemplos mundo_vacio_def)
qed

text \<open>
  C10. When the identifier typed is empty after \<^verbatim>\<open>strip()\<close>, \<^verbatim>\<open>marcar_como_leido\<close> and
  \<^verbatim>\<open>eliminar_libro\<close> print the error and return: after the listing that opens both, no
  command is sent (no search) and the store is as it was, although every identifier ends
  with the empty string.
\<close>

theorem C10_id_vacio:
  assumes "py_strip id_in = []"
  shows "marcar_como_leido id_in w =
           (case listar_libros w of
              (Some e, w1) \<Rightarrow> (Some e, w1)
            | (None, w1) \<Rightarrow> (None, imprimir ErrorIdVacio w1))
       \<and> eliminar_libro id_in w =
           (case listar_libros w of
              (Some e, w1) \<Rightarrow> (Some e, w1)
            | (None, w1) \<Rightarrow> (None, imprimir ErrorIdVacio w1))
       \<and> cmds (snd (marcar_como_leido id_in w)) = cmds (snd (listar_libros w))
       \<and> cmds (snd (eliminar_libro id_in w)) = cmds (snd (listar_libros w))
       \<and> db (snd (marcar_como_leido id_in w)) = db w
       \<and> db (snd (eliminar_libro id_in w)) = db w
       \<and> endswith i (py_strip id_in)"
proof -
  obtain r w1 where e: "listar_libros w = (r, w1)" by (cases "listar_libros w")
  then have "db w1 = db w" using listar_libros_db[of w] by simp
  then show ?thesis
    using assms
    by (simp add: marcar_como_leido_def eliminar_libro_def e Let_def split: option.splits)
qed

theorem C10_id_vacio_witness:
  "py_strip (ascii ''   '') = []
   \<and> marcar_como_leido (ascii ''   '') mundo_uno
       = (None, imprimir ErrorIdVacio (snd (listar_libros mundo_uno)))
   \<and> eliminar_libro (ascii ''   '') mundo_uno
       = (None, imprimir ErrorIdVacio (snd (listar_libros mundo_uno)))
   \<and> cmds (snd (marcar_como_leido (ascii ''   '') mundo_uno))
       = cmds mundo_uno @ [SMEMBERS ALL_BOOKS_KEY, MGET [KEY_PREFIX @ ascii ''ab12'']]
   \<and> cmds (snd (eliminar_libro (ascii ''   '') mundo_uno))
       = cmds mundo_uno @ [SMEMBERS ALL_BOOKS_KEY, MGET [KEY_PREFIX @ ascii ''ab12'']]
   \<and> db (snd (marcar_como_leido (ascii ''   '') mundo_uno)) = db mundo_uno
   \<and> db (snd (eliminar_libro (ascii ''   '') mundo_uno)) = db mundo_uno"
proof -
  note c = C10_id_vacio[OF strip_ejemplos(9), of mundo_uno "[]"]
  note l = listar_ok[OF mundo_uno_ok mundo_uno_members]
  from c l listar_libros_db[of mundo_uno] show ?thesis
    by (cases "listar_libros mundo_uno") (simp add: strip_ejemplos)
qed

text \<open>
  C5. \<^verbatim>\<open>buscar_libro_por_id_parcial\<close> reads the members of the index and takes the first
  one that ends with the suffix. It returns \<^verbatim>\<open>(None, None)\<close> when no member does, and when
  the key of that member holds no value; it returns the decoded record and its key when
  the key holds one. (An identifier is never the empty string.)
\<close>

theorem C5_buscar:
  assumes m: "members w = Some ids"
  shows "((\<forall>i\<in>set ids. \<not> endswith i suf) \<longrightarrow>
            fst (buscar_libro_por_id_parcial suf w) = Inr (JNull, None))
       \<and> (ids = pre @ i # post \<and> (\<forall>j\<in>set pre. \<not> endswith j suf) \<and> endswith i suf \<longrightarrow>
            (db w (KEY_PREFIX @ i) = None \<longrightarrow>
               fst (buscar_libro_por_id_parcial suf w) = Inr (JNull, None))
          \<and> (i \<noteq> [] \<and> db w (KEY_PREFIX @ i) = Some (RString v) \<and> json_loads v = Inr libro \<longrightarrow>
               fst (buscar_libro_por_id_parcial suf w) = Inr (libro, Some (KEY_PREFIX @ i))))
       \<and> db (snd (buscar_libro_por_id_parcial suf w)) = db w"
proof (intro conjI impI)
  assume "\<forall>i\<in>set ids. \<not> endswith i suf"
  then have "find (\<lambda>i. endswith i suf) ids = None" by (simp add: find_None_iff)
  then show "fst (buscar_libro_por_id_parcial suf w) = Inr (JNull, None)"
    by (simp add: buscar_eq m)
next
  assume a: "ids = pre @ i # post \<and> (\<forall>j\<in>set pre. \<not> endswith j suf) \<and> endswith i suf"
  then have f: "find (\<lambda>i. endswith i suf) ids = Some i" by (simp add: find_first)
  { assume "db w (KEY_PREFIX @ i) = None"
    then show "fst (buscar_libro_por_id_parcial suf w) = Inr (JNull, None)"
      by (simp add: buscar_eq m f) }
  { assume "i \<noteq> [] \<and> db w (KEY_PREFIX @ i) = Some (RString v) \<and> json_loads v = Inr libro"
    moreover from this have "v \<noteq> []" using json_loads_Nil by auto
    ultimately show "fst (buscar_libro_por_id_parcial suf w) = Inr (libro, Some (KEY_PREFIX @ i))"
      by (simp add: buscar_eq m f) }
next
  show "db (snd (buscar_libro_por_id_parcial suf w)) = db w" by simp
qed

theorem C5_buscar_witness:
  "members mundo_dos = Some [ascii ''ab12'', ascii ''cd12'']
   \<and> \<not> endswith (ascii ''ab12'') (ascii ''zz'') \<and> \<not> endswith (ascii ''cd12'') (ascii ''zz'')
   \<and> fst (buscar_libro_por_id_parcial (ascii ''zz'') mundo_dos) = Inr (JNull, None)
   \<and> \<not> endswith (ascii ''ab12'') (ascii ''d12'') \<and> endswith (ascii ''cd12'') (ascii ''d12'')
   \<and> db mundo_dos (KEY_PREFIX @ ascii ''cd12'') = Some (RString (json_dumps libro_dos))
   \<and> json_loads (json_dumps libro_dos) = Inr libro_dos
   \<and> fst (buscar_libro_por_id_parcial (ascii ''d12'') mundo_dos)
       = Inr (libro_dos, Some (KEY_PREFIX @ ascii ''cd12''))
   \<and> members mundo_huerfano = Some [ascii ''ab12'']
   \<and> endswith (ascii ''ab12'') (ascii ''b12'')
   \<and> db mundo_huerfano (KEY_PREFIX @ ascii ''ab12'') = None
   \<and> fst (buscar_libro_por_id_parcial (ascii ''b12'') mundo_huerfano) = Inr (JNull, None)"
proof -
  have e: "\<not> endswith (ascii ''ab12'') (ascii ''zz'')" "\<not> endswith (ascii ''cd12'') (ascii ''zz'')"
    "\<not> endswith (ascii ''ab12'') (ascii ''d12'')" "endswith (ascii ''cd12'') (ascii ''d12'')"
    "endswith (ascii ''ab12'') (ascii ''b12'')"
    by (simp_all add: endswith_def ascii_def)
  have mh: "members mundo_huerfano = Some [ascii ''ab12'']"
    and dh: "db mundo_huerfano (KEY_PREFIX @ ascii ''ab12'') = None"
    using mundo_uno_members by (simp_all add: mundo_huerfano_def members_def)
  note c1 = C5_buscar[OF mundo_dos_members, of "ascii ''zz''"]
  note c2 = C5_buscar[OF mundo_dos_members, of "ascii ''d12''" "[ascii ''ab12'']" "ascii ''cd12''" "[]"
              "json_dumps libro_dos" libro_dos]
  note c3 = C5_buscar[OF mh, of "ascii ''b12''" "[]" "ascii ''ab12''" "[]"]
  have "fst (buscar_libro_por_id_parcial (ascii ''zz'') mundo_dos) = Inr (JNull, None)"
    using c1 e by simp
  moreover have "fst (buscar_libro_por_id_parcial (ascii ''d12'') mundo_dos)
       = Inr (libro_dos, Some (KEY_PREFIX @ ascii ''cd12''))"
    using c2 e db_ejemplos(3) libro_ejemplos(4) by simp
  moreover have "fst (buscar_libro_por_id_parcial (ascii ''b12'') mundo_huerfano) = Inr (JNull, None)"
    using c3 e dh by simp
  ultimately show ?thesis
    using e mh dh mundo_dos_members db_ejemplos(3) libro_ejemplos(4) by simp
qed

text \<open>
  C8. \<^verbatim>\<open>listar_libros\<close> reads the members of the index, fetches their values with one
  \<^verbatim>\<open>MGET\<close>, decodes every value that is present, passes over the others, and lists the
  records in the reverse of the order in which they were retrieved.
\<close>

theorem C8_listar:
  assumes m: "members w = Some ids"
    and vals: "vals = fst (redis_mget (map (\<lambda>i. KEY_PREFIX @ i) ids) w)"
    and dec: "\<forall>v. Some v \<in> set vals \<and> v \<noteq> [] \<longrightarrow> (\<exists>j. json_loads v = Inr j)"
    and libros: "libros = rev (map (\<lambda>x. projr (json_loads (the x)))
                                (filter (\<lambda>x. x \<noteq> None \<and> x \<noteq> Some []) vals))"
  shows "fst (libros_recuperados w) = Inr libros
       \<and> nuevos w (snd (libros_recuperados w))
           = [SMEMBERS ALL_BOOKS_KEY, MGET (map (\<lambda>i. KEY_PREFIX @ i) ids)]
       \<and> db (snd (libros_recuperados w)) = db w
       \<and> (libros = [] \<longrightarrow>
            fst (listar_libros w) = None
            \<and> out (snd (listar_libros w)) = out w @ [BibliotecaVacia])
       \<and> (libros \<noteq> [] \<and> (\<forall>j\<in>set libros. \<exists>f. fila_de j = Inr f) \<longrightarrow>
            fst (listar_libros w) = None
            \<and> out (snd (listar_libros w)) = out w @ [Tabla (map (\<lambda>j. projr (fila_de j)) libros)])"
proof -
  have v: "valores w ids = vals" by (simp add: vals mget_valores)
  have c: "cargar vals = Inr (rev libros)"
    using cargar_ok[OF dec] by (simp add: libros)
  have r: "libros_recuperados w =
             (Inr libros, sent (MGET (map (\<lambda>i. KEY_PREFIX @ i) ids)) (sent (SMEMBERS ALL_BOOKS_KEY) w))"
    by (simp add: libros_recuperados_eq m v c)
  show ?thesis
    by (auto simp: r listar_libros_def filas_ok nuevos_def)
qed

theorem C8_listar_witness:
  "members mundo_dos = Some [ascii ''ab12'', ascii ''cd12'']
   \<and> fst (redis_mget [KEY_PREFIX @ ascii ''ab12'', KEY_PREFIX @ ascii ''cd12''] mundo_dos)
       = [Some (json_dumps libro_uno), Some (json_dumps libro_dos)]
   \<and> json_loads (json_dumps libro_uno) = Inr libro_uno
   \<and> json_loads (json_dumps libro_dos) = Inr libro_dos
   \<and> fst (libros_recuperados mundo_dos) = Inr [libro_dos, libro_uno]
   \<and> nuevos mundo_dos (snd (libros_recuperados mundo_dos))
       = [SMEMBERS ALL_BOOKS_KEY, MGET [KEY_PREFIX @ ascii ''ab12'', KEY_PREFIX @ ascii ''cd12'']]
   \<and> fst (listar_libros mundo_dos) = None
   \<and> out (snd (listar_libros mundo_dos))
       = out mundo_dos @ [Tabla [projr (fila_de libro_dos), projr (fila_de libro_uno)]]"
proof -
  have ne: "json_dumps libro_uno \<noteq> []" "json_dumps libro_dos \<noteq> []"
    using libro_ejemplos(3,4) json_loads_Nil by auto
  have v: "[Some (json_dumps libro_uno), Some (json_dumps libro_dos)]
            = fst (redis_mget (map (\<lambda>i. KEY_PREFIX @ i) [ascii ''ab12'', ascii ''cd12'']) mundo_dos)"
    by (simp add: redis_mget_def db_ejemplos)
  have d: "\<forall>v. Some v \<in> set [Some (json_dumps libro_uno), Some (json_dumps libro_dos)] \<and> v \<noteq> []
             \<longrightarrow> (\<exists>j. json_loads v = Inr j)"
    using libro_ejemplos(3,4) by auto
  have l: "[libro_dos, libro_uno]
            = rev (map (\<lambda>x. projr (json_loads (the x)))
                (filter (\<lambda>x. x \<noteq> None \<and> x \<noteq> Some [])
                   [Some (json_dumps libro_uno), Some (json_dumps libro_dos)]))"
    using ne by (simp add: libro_ejemplos)
  note c = C8_listar[OF mundo_dos_members v d l]
  have f: "\<forall>j\<in>set [libro_dos, libro_uno]. \<exists>f. fila_de j = Inr f"
    using libro_ejemplos(1,2) by (simp add: is_libro_fila)
  from c f v show ?thesis
    using mundo_dos_members libro_ejemplos(3,4) by simp
qed

text \<open>
  C3. Marking a stored record as read twice: after the first call its \<^verbatim>\<open>leido\<close> field is
  \<^verbatim>\<open>True\<close>; the second call reports that the book was already read, sends no command that
  writes, and leaves the store, and so the field, as it was.
\<close>

theorem C3_marcar_idempotente:
  assumes ok: "store_ok w" and m: "members w = Some ids"
    and s: "py_strip id_in = s" "s \<noteq> []"
    and f: "find (\<lambda>i. endswith i s) ids = Some i"
    and v: "db w (KEY_PREFIX @ i) = Some (RString v)"
    and w1: "w1 = snd (marcar_como_leido id_in w)"
    and w2: "w2 = snd (marcar_como_leido id_in w1)"
  shows "fst (marcar_como_leido id_in w) = None
       \<and> (\<exists>v1 libro1. db w1 (KEY_PREFIX @ i) = Some (RString v1) \<and> json_loads v1 = Inr libro1
            \<and> subscript libro1 (ascii ''leido'') = Inr (JBool True))
       \<and> fst (marcar_como_leido id_in w1) = None
       \<and> last (out w2) = YaLeido
       \<and> db w2 = db w1
       \<and> nuevos w1 w2 = [SMEMBERS ALL_BOOKS_KEY, MGET (map (\<lambda>i. KEY_PREFIX @ i) ids),
                         SMEMBERS ALL_BOOKS_KEY, GET (KEY_PREFIX @ i)]"
proof -
  from buscar_ok[OF ok m f v] obtain libro where l: "json_loads v = Inr libro"
    and lib: "is_libro libro" and lid: "subscript libro (ascii ''id'') = Inr (JStr i)"
    by blast
  from f have "i \<in> set ids" by (simp add: find_in_set)
  with ok m have "entrada_ok w i" by (rule store_ok_entrada)
  then have i: "i \<noteq> []" by (simp add: entrada_ok_def)
  note r1 = marcar_result[OF ok m s f v l w1]
  have "\<exists>v1 libro1. db w1 (KEY_PREFIX @ i) = Some (RString v1) \<and> json_loads v1 = Inr libro1
          \<and> is_libro libro1 \<and> subscript libro1 (ascii ''leido'') = Inr (JBool True)
          \<and> store_ok w1 \<and> members w1 = Some ids"
  proof (cases "subscript libro (ascii ''leido'') = Inr (JBool True)")
    case True
    from r1(2)[OF True] have d: "db w1 = db w" by simp
    with ok m v l lib True show ?thesis
      by (auto simp: store_ok_db[OF d] members_db[OF d])
  next
    case False
    from r1(3)[OF False]
    have d: "db w1 = (db w)(KEY_PREFIX @ i \<mapsto> RString (json_dumps (marcado libro)))" by simp
    have lm: "is_libro (marcado libro)"
      and tm: "subscript (marcado libro) (ascii ''leido'') = Inr (JBool True)"
      and im: "subscript (marcado libro) (ascii ''id'') = Inr (JStr i)"
      using is_libro_marcado[OF lib] lid by simp_all
    have rm: "registro_ok i (json_dumps (marcado libro))"
      using lm im by (rule registro_ok_dumps)
    have "json_loads (json_dumps (marcado libro)) = Inr (marcado libro)"
      using lm by (rule is_libro_roundtrip)
    then show ?thesis
      using store_ok_set[OF ok rm i d] m lm tm d by auto
  qed
  then obtain v1 libro1 where v1: "db w1 (KEY_PREFIX @ i) = Some (RString v1)"
    and l1: "json_loads v1 = Inr libro1" and t1: "subscript libro1 (ascii ''leido'') = Inr (JBool True)"
    and ok1: "store_ok w1" and m1: "members w1 = Some ids"
    by blast
  note r2 = marcar_result[OF ok1 m1 s f v1 l1 w2]
  from r1(1) v1 l1 t1 r2(1) r2(2)[OF t1] show ?thesis by blast
qed

theorem C3_marcar_idempotente_witness:
  "store_ok mundo_uno \<and> members mundo_uno = Some [ascii ''ab12'']
   \<and> py_strip (ascii '' b12 '') = ascii ''b12'' \<and> ascii ''b12'' \<noteq> []
   \<and> find (\<lambda>i. endswith i (ascii ''b12'')) [ascii ''ab12''] = Some (ascii ''ab12'')
   \<and> db mundo_uno (KEY_PREFIX @ ascii ''ab12'') = Some (RString (json_dumps libro_uno))
   \<and> fst (marcar_como_leido (ascii '' b12 '') mundo_uno) = None
   \<and> (\<exists>v1 libro1.
         db (snd (marcar_como_leido (ascii '' b12 '') mundo_uno)) (KEY_PREFIX @ ascii ''ab12'')
           = Some (RString v1)
         \<and> json_loads v1 = Inr libro1 \<and> subscript libro1 (ascii ''leido'') = Inr (JBool True))
   \<and> last (out (snd (marcar_como_leido (ascii '' b12 '')
                        (snd (marcar_como_leido (ascii '' b12 '') mundo_uno))))) = YaLeido
   \<and> db (snd (marcar_como_leido (ascii '' b12 '')
                (snd (marcar_como_leido (ascii '' b12 '') mundo_uno))))
       = db (snd (marcar_como_leido (ascii '' b12 '') mundo_uno))
   \<and> nuevos (snd (marcar_como_leido (ascii '' b12 '') mundo_uno))
        (snd (marcar_como_leido (ascii '' b12 '')
                (snd (marcar_como_leido (ascii '' b12 '') mundo_uno))))
       = [SMEMBERS ALL_BOOKS_KEY, MGET [KEY_PREFIX @ ascii ''ab12''],
          SMEMBERS ALL_BOOKS_KEY, GET (KEY_PREFIX @ ascii ''ab12'')]"
proof -
  have ne: "ascii ''b12'' \<noteq> []" by simp
  note c = C3_marcar_idempotente[OF mundo_uno_ok mundo_uno_members strip_ejemplos(7) ne
             find_ejemplos(3) db_ejemplos(1) refl refl]
  from c show ?thesis
    using mundo_uno_ok mundo_uno_members strip_ejemplos(7) find_ejemplos(3) db_ejemplos(1)
    by simp
qed

text \<open>
  C2. Deleting a stored record through a suffix removes the record value and the
  identifier from the index; a listing that follows does not have the record, and a search
  for the suffix that follows finds nothing, provided no other identifier of the index ends
  with that suffix. When \<^verbatim>\<open>DEL\<close> reports no key deleted (another client has removed the key
  since the search), no \<^verbatim>\<open>SREM\<close> is sent, the index is as it was, and the failure is
  reported.
\<close>

theorem C2_eliminar:
  assumes ok: "store_ok w" and m: "members w = Some ids"
    and s: "py_strip id_in = s" "s \<noteq> []"
    and f: "find (\<lambda>i. endswith i s) ids = Some i"
    and v: "db w (KEY_PREFIX @ i) = Some (RString v)"
    and w1: "w1 = snd (eliminar_libro id_in w)"
    and w0: "w0 = snd (eliminar_libro_entre otros id_in w)"
  shows "fst (eliminar_libro id_in w) = None
       \<and> eliminar_libro_entre (\<lambda>x. x) id_in w = eliminar_libro id_in w
       \<and> db w1 (KEY_PREFIX @ i) = None
       \<and> members w1 = Some (removeAll i ids)
       \<and> nuevos w w1 = [SMEMBERS ALL_BOOKS_KEY, MGET (map (\<lambda>i. KEY_PREFIX @ i) ids),
                        SMEMBERS ALL_BOOKS_KEY, GET (KEY_PREFIX @ i), DEL (KEY_PREFIX @ i),
                        SREM ALL_BOOKS_KEY i]
       \<and> (\<exists>t. last (out w1) = Eliminado s t)
       \<and> (\<exists>libros. fst (libros_recuperados w1) = Inr libros
             \<and> (\<forall>j\<in>set libros. subscript j (ascii ''id'') \<noteq> Inr (JStr i)))
       \<and> ((\<forall>j\<in>set ids. j \<noteq> i \<longrightarrow> \<not> endswith j s) \<longrightarrow>
             fst (buscar_libro_por_id_parcial s w1) = Inr (JNull, None))
       \<and> ((\<forall>x. db (otros x) (KEY_PREFIX @ i) = None
               \<and> db (otros x) ALL_BOOKS_KEY = db x ALL_BOOKS_KEY
               \<and> cmds (otros x) = cmds x \<and> out (otros x) = out x) \<longrightarrow>
             fst (eliminar_libro_entre otros id_in w) = None
             \<and> nuevos w w0 = [SMEMBERS ALL_BOOKS_KEY, MGET (map (\<lambda>i. KEY_PREFIX @ i) ids),
                              SMEMBERS ALL_BOOKS_KEY, GET (KEY_PREFIX @ i), DEL (KEY_PREFIX @ i)]
             \<and> db w0 ALL_BOOKS_KEY = db w ALL_BOOKS_KEY
             \<and> members w0 = Some ids
             \<and> last (out w0) = NoSePudoEliminar)"
proof -
  note r = eliminar_result[OF ok m s f v w1]
  note o = store_ok_del[OF ok m r(2)]
  from store_ok_cargar_ids[OF o] obtain js where
    js: "cargar (valores w1 (removeAll i ids)) = Inr js"
    "\<forall>j\<in>set js. \<exists>i'\<in>set (removeAll i ids). subscript j (ascii ''id'') = Inr (JStr i')"
    by blast
  have l: "fst (libros_recuperados w1) = Inr (rev js)"
    by (simp add: libros_recuperados_eq o(2) js(1))
  have ex: "\<forall>j\<in>set (rev js). subscript j (ascii ''id'') \<noteq> Inr (JStr i)"
    using js(2) by auto
  have nf: "fst (buscar_libro_por_id_parcial s w1) = Inr (JNull, None)"
    if "\<forall>j\<in>set ids. j \<noteq> i \<longrightarrow> \<not> endswith j s"
  proof -
    from that have "find (\<lambda>i. endswith i s) (removeAll i ids) = None"
      by (auto simp: find_None_iff)
    then show ?thesis by (simp add: buscar_eq o(2))
  qed
  have z: "fst (eliminar_libro_entre otros id_in w) = None
             \<and> nuevos w w0 = [SMEMBERS ALL_BOOKS_KEY, MGET (map (\<lambda>i. KEY_PREFIX @ i) ids),
                              SMEMBERS ALL_BOOKS_KEY, GET (KEY_PREFIX @ i), DEL (KEY_PREFIX @ i)]
             \<and> db w0 ALL_BOOKS_KEY = db w ALL_BOOKS_KEY
             \<and> members w0 = Some ids
             \<and> last (out w0) = NoSePudoEliminar"
    if h: "\<forall>x. db (otros x) (KEY_PREFIX @ i) = None
               \<and> db (otros x) ALL_BOOKS_KEY = db x ALL_BOOKS_KEY
               \<and> cmds (otros x) = cmds x \<and> out (otros x) = out x"
  proof -
    from h have h1: "db (otros x) (KEY_PREFIX @ i) = None" for x by simp
    from h have h2: "db (otros x) ALL_BOOKS_KEY = db x ALL_BOOKS_KEY" for x by simp
    from h have h3: "cmds (otros x) = cmds x" for x by simp
    obtain wb where
      wb: "db wb = db w"
        "cmds wb = cmds w @ [SMEMBERS ALL_BOOKS_KEY, MGET (map (\<lambda>i. KEY_PREFIX @ i) ids),
                                 SMEMBERS ALL_BOOKS_KEY, GET (KEY_PREFIX @ i)]"
      and e: "eliminar_libro_entre otros id_in w
               = (None, imprimir NoSePudoEliminar (sent (DEL (KEY_PREFIX @ i)) (otros wb)))"
      by (rule eliminar_entre_cero[OF ok m s f v h1])
    have w0': "w0 = imprimir NoSePudoEliminar (sent (DEL (KEY_PREFIX @ i)) (otros wb))"
      by (simp add: w0 e)
    have a: "db w0 ALL_BOOKS_KEY = db w ALL_BOOKS_KEY" by (simp add: w0' h2 wb(1))
    then have mm: "members w0 = Some ids" using m by (simp add: members_def)
    have c: "nuevos w w0 = [SMEMBERS ALL_BOOKS_KEY, MGET (map (\<lambda>i. KEY_PREFIX @ i) ids),
                              SMEMBERS ALL_BOOKS_KEY, GET (KEY_PREFIX @ i), DEL (KEY_PREFIX @ i)]"
      by (simp add: w0' h3 wb(2) nuevos_def)
    have l0: "last (out w0) = NoSePudoEliminar" by (simp add: w0')
    have f0: "fst (eliminar_libro_entre otros id_in w) = None" by (simp add: e)
    show ?thesis by (intro conjI) (rule f0, rule c, rule a, rule mm, rule l0)
  qed
  have c2: "eliminar_libro_entre (\<lambda>x. x) id_in w = eliminar_libro id_in w"
    by (rule eliminar_libro_entre_solo)
  have c3: "db w1 (KEY_PREFIX @ i) = None" by (simp add: r(2))
  have c7: "\<exists>libros. fst (libros_recuperados w1) = Inr libros
             \<and> (\<forall>j\<in>set libros. subscript j (ascii ''id'') \<noteq> Inr (JStr i))"
    using l ex by blast
  have c8: "(\<forall>j\<in>set ids. j \<noteq> i \<longrightarrow> \<not> endswith j s) \<longrightarrow>
             fst (buscar_libro_por_id_parcial s w1) = Inr (JNull, None)"
  proof
    assume "\<forall>j\<in>set ids. j \<noteq> i \<longrightarrow> \<not> endswith j s"
    then show "fst (buscar_libro_por_id_parcial s w1) = Inr (JNull, None)" by (rule nf)
  qed
  have c9: "(\<forall>x. db (otros x) (KEY_PREFIX @ i) = None
               \<and> db (otros x) ALL_BOOKS_KEY = db x ALL_BOOKS_KEY
               \<and> cmds (otros x) = cmds x \<and> out (otros x) = out x) \<longrightarrow>
             fst (eliminar_libro_entre otros id_in w) = None
             \<and> nuevos w w0 = [SMEMBERS ALL_BOOKS_KEY, MGET (map (\<lambda>i. KEY_PREFIX @ i) ids),
                              SMEMBERS ALL_BOOKS_KEY, GET (KEY_PREFIX @ i), DEL (KEY_PREFIX @ i)]
             \<and> db w0 ALL_BOOKS_KEY = db w ALL_BOOKS_KEY
             \<and> members w0 = Some ids
             \<and> last (out w0) = NoSePudoEliminar"
  proof
    assume "\<forall>x. db (otros x) (KEY_PREFIX @ i) = None
               \<and> db (otros x) ALL_BOOKS_KEY = db x ALL_BOOKS_KEY
               \<and> cmds (otros x) = cmds x \<and> out (otros x) = out x"
    then show "fst (eliminar_libro_entre otros id_in w) = None
             \<and> nuevos w w0 = [SMEMBERS ALL_BOOKS_KEY, MGET (map (\<lambda>i. KEY_PREFIX @ i) ids),
                              SMEMBERS ALL_BOOKS_KEY, GET (KEY_PREFIX @ i), DEL (KEY_PREFIX @ i)]
             \<and> db w0 ALL_BOOKS_KEY = db w ALL_BOOKS_KEY
             \<and> members w0 = Some ids
             \<and> last (out w0) = NoSePudoEliminar" by (rule z)
  qed
  show ?thesis
  proof (intro conjI)
    show "fst (eliminar_libro id_in w) = None" by (rule r(1))
    show "eliminar_libro_entre (\<lambda>x. x) id_in w = eliminar_libro id_in w" by (rule c2)
    show "db w1 (KEY_PREFIX @ i) = None" by (rule c3)
    show "members w1 = Some (removeAll i ids)" by (rule o(2))
    show "nuevos w w1 = [SMEMBERS ALL_BOOKS_KEY, MGET (map (\<lambda>i. KEY_PREFIX @ i) ids),
                        SMEMBERS ALL_BOOKS_KEY, GET (KEY_PREFIX @ i), DEL (KEY_PREFIX @ i),
                        SREM ALL_BOOKS_KEY i]" by (rule r(3))
    show "\<exists>t. last (out w1) = Eliminado s t" by (rule r(4))
    show "\<exists>libros. fst (libros_recuperados w1) = Inr libros
             \<and> (\<forall>j\<in>set libros. subscript j (ascii ''id'') \<noteq> Inr (JStr i))" by (rule c7)
    show "(\<forall>j\<in>set ids. j \<noteq> i \<longrightarrow> \<not> endswith j s) \<longrightarrow>
             fst (buscar_libro_por_id_parcial s w1) = Inr (JNull, None)" by (rule c8)
    show "(\<forall>x. db (otros x) (KEY_PREFIX @ i) = None
               \<and> db (otros x) ALL_BOOKS_KEY = db x ALL_BOOKS_KEY
               \<and> cmds (otros x) = cmds x \<and> out (otros x) = out x) \<longrightarrow>
             fst (eliminar_libro_entre otros id_in w) = None
             \<and> nuevos w w0 = [SMEMBERS ALL_BOOKS_KEY, MGET (map (\<lambda>i. KEY_PREFIX @ i) ids),
                              SMEMBERS ALL_BOOKS_KEY, GET (KEY_PREFIX @ i), DEL (KEY_PREFIX @ i)]
             \<and> db w0 ALL_BOOKS_KEY = db w ALL_BOOKS_KEY
             \<and> members w0 = Some ids
             \<and> last (out w0) = NoSePudoEliminar" by (rule c9)
  qed
qed

theorem C2_eliminar_witness:
  "store_ok mundo_uno \<and> members mundo_uno = Some [ascii ''ab12'']
   \<and> py_strip (ascii '' b12 '') = ascii ''b12'' \<and> ascii ''b12'' \<noteq> []
   \<and> find (\<lambda>i. endswith i (ascii ''b12'')) [ascii ''ab12''] = Some (ascii ''ab12'')
   \<and> db mundo_uno (KEY_PREFIX @ ascii ''ab12'') = Some (RString (json_dumps libro_uno))
   \<and> fst (eliminar_libro (ascii '' b12 '') mundo_uno) = None
   \<and> db (snd (eliminar_libro (ascii '' b12 '') mundo_uno)) (KEY_PREFIX @ ascii ''ab12'') = None
   \<and> members (snd (eliminar_libro (ascii '' b12 '') mundo_uno)) = Some []
   \<and> fst (libros_recuperados (snd (eliminar_libro (ascii '' b12 '') mundo_uno))) = Inr []
   \<and> fst (buscar_libro_por_id_parcial (ascii ''b12'') (snd (eliminar_libro (ascii '' b12 '') mundo_uno)))
       = Inr (JNull, None)
   \<and> last (out (snd (eliminar_libro_entre
                       (\<lambda>x. x\<lparr>db := (db x)(KEY_PREFIX @ ascii ''ab12'' := None)\<rparr>)
                       (ascii '' b12 '') mundo_uno))) = NoSePudoEliminar
   \<and> members (snd (eliminar_libro_entre
                       (\<lambda>x. x\<lparr>db := (db x)(KEY_PREFIX @ ascii ''ab12'' := None)\<rparr>)
                       (ascii '' b12 '') mundo_uno)) = Some [ascii ''ab12'']
   \<and> nuevos mundo_uno (snd (eliminar_libro_entre
                       (\<lambda>x. x\<lparr>db := (db x)(KEY_PREFIX @ ascii ''ab12'' := None)\<rparr>)
                       (ascii '' b12 '') mundo_uno))
       = [SMEMBERS ALL_BOOKS_KEY, MGET [KEY_PREFIX @ ascii ''ab12''],
          SMEMBERS ALL_BOOKS_KEY, GET (KEY_PREFIX @ ascii ''ab12''), DEL (KEY_PREFIX @ ascii ''ab12'')]"
proof -
  have ne: "ascii ''b12'' \<noteq> []" by simp
  note c = C2_eliminar[OF mundo_uno_ok mundo_uno_members strip_ejemplos(7) ne find_ejemplos(3)
             db_ejemplos(1) refl refl,
             of "\<lambda>x. x\<lparr>db := (db x)(KEY_PREFIX @ ascii ''ab12'' := None)\<rparr>"]
  have m: "members (snd (eliminar_libro (ascii '' b12 '') mundo_uno)) = Some []"
    using c by simp
  have l: "fst (libros_recuperados (snd (eliminar_libro (ascii '' b12 '') mundo_uno))) = Inr []"
    by (simp add: libros_recuperados_eq m valores_def)
  have h: "\<forall>x. db (x\<lparr>db := (db x)(KEY_PREFIX @ ascii ''ab12'' := None)\<rparr>) (KEY_PREFIX @ ascii ''ab12'') = None
               \<and> db (x\<lparr>db := (db x)(KEY_PREFIX @ ascii ''ab12'' := None)\<rparr>) ALL_BOOKS_KEY
                   = db x ALL_BOOKS_KEY
               \<and> cmds (x\<lparr>db := (db x)(KEY_PREFIX @ ascii ''ab12'' := None)\<rparr>) = cmds x
               \<and> out (x\<lparr>db := (db x)(KEY_PREFIX @ ascii ''ab12'' := None)\<rparr>) = out x"
    by simp
  from c h have z: "last (out (snd (eliminar_libro_entre
                       (\<lambda>x. x\<lparr>db := (db x)(KEY_PREFIX @ ascii ''ab12'' := None)\<rparr>)
                       (ascii '' b12 '') mundo_uno))) = NoSePudoEliminar
     \<and> members (snd (eliminar_libro_entre
                       (\<lambda>x. x\<lparr>db := (db x)(KEY_PREFIX @ ascii ''ab12'' := None)\<rparr>)
                       (ascii '' b12 '') mundo_uno)) = Some [ascii ''ab12'']
     \<and> nuevos mundo_uno (snd (eliminar_libro_entre
                       (\<lambda>x. x\<lparr>db := (db x)(KEY_PREFIX @ ascii ''ab12'' := None)\<rparr>)
                       (ascii '' b12 '') mundo_uno))
       = [SMEMBERS ALL_BOOKS_KEY, MGET [KEY_PREFIX @ ascii ''ab12''],
          SMEMBERS ALL_BOOKS_KEY, GET (KEY_PREFIX @ ascii ''ab12''), DEL (KEY_PREFIX @ ascii ''ab12'')]"
    by simp
  have b: "fst (buscar_libro_por_id_parcial (ascii ''b12'') (snd (eliminar_libro (ascii '' b12 '') mundo_uno)))
       = Inr (JNull, None)"
    using c by simp
  have d: "fst (eliminar_libro (ascii '' b12 '') mundo_uno) = None"
    "db (snd (eliminar_libro (ascii '' b12 '') mundo_uno)) (KEY_PREFIX @ ascii ''ab12'') = None"
    using c by simp_all
  from z b d m l show ?thesis
    using mundo_uno_ok mundo_uno_members strip_ejemplos(7) find_ejemplos(3) db_ejemplos(1)
    by simp
qed

text \<open>Two identifiers that end alike: after the first is deleted through the common
  suffix, a search for that suffix returns the second record.\<close>

theorem C2_counterexample:
  "(\<exists>t. last (out (snd (eliminar_libro (ascii ''12'') mundo_dos))) = Eliminado (ascii ''12'') t)
   \<and> db (snd (eliminar_libro (ascii ''12'') mundo_dos)) (KEY_PREFIX @ ascii ''ab12'') = None
   \<and> members (snd (eliminar_libro (ascii ''12'') mundo_dos)) = Some [ascii ''cd12'']
   \<and> fst (buscar_libro_por_id_parcial (ascii ''12'') (snd (eliminar_libro (ascii ''12'') mundo_dos)))
       = Inr (libro_dos, Some (KEY_PREFIX @ ascii ''cd12''))
   \<and> Inr (libro_dos, Some (KEY_PREFIX @ ascii ''cd12'')) \<noteq> (Inr (JNull, None) :: pyerr + json \<times> pystr option)"
proof -
  define w1 where "w1 = snd (eliminar_libro (ascii ''12'') mundo_dos)"
  note r = eliminar_result[OF mundo_dos_ok mundo_dos_members strip_ejemplos(8) _
             find_ejemplos(1) db_ejemplos(2) w1_def]
  have d: "db w1 = (db mundo_dos)(KEY_PREFIX @ ascii ''ab12'' := None,
                      ALL_BOOKS_KEY := (if removeAll (ascii ''ab12'') [ascii ''ab12'', ascii ''cd12''] = []
                         then None
                         else Some (RSet (removeAll (ascii ''ab12'') [ascii ''ab12'', ascii ''cd12'']))))"
    by (rule r(2)) simp
  note o = store_ok_del[OF mundo_dos_ok mundo_dos_members d]
  have m1: "members w1 = Some [ascii ''cd12'']" using o(2) by simp
  have v1: "db w1 (KEY_PREFIX @ ascii ''cd12'') = Some (RString (json_dumps libro_dos))"
    by (simp add: d db_ejemplos)
  obtain libro where "json_loads (json_dumps libro_dos) = Inr libro"
    and "buscar_libro_por_id_parcial (ascii ''12'') w1 =
           (Inr (libro, Some (KEY_PREFIX @ ascii ''cd12'')),
            sent (GET (KEY_PREFIX @ ascii ''cd12'')) (sent (SMEMBERS ALL_BOOKS_KEY) w1))"
    by (rule buscar_ok[OF o(1) m1 find_ejemplos(2) v1])
  then have "fst (buscar_libro_por_id_parcial (ascii ''12'') w1)
          = Inr (libro_dos, Some (KEY_PREFIX @ ascii ''cd12''))"
    by (simp add: libro_ejemplos(4))
  moreover have "\<exists>t. last (out w1) = Eliminado (ascii ''12'') t" by (rule r(4)) simp
  moreover have "db w1 (KEY_PREFIX @ ascii ''ab12'') = None" by (simp add: d)
  ultimately show ?thesis
    using m1 unfolding w1_def by simp
qed

text \<open>
  C9. What the operations of the menu do to a stored record: after any of them the value
  under its key is what it was, or is gone (only after \<^verbatim>\<open>eliminar_libro\<close>), or is the record
  with \<^verbatim>\<open>leido\<close> set to \<^verbatim>\<open>True\<close> and every other field as it was (only after
  \<^verbatim>\<open>marcar_como_leido\<close>). The identifier \<^verbatim>\<open>uuid4\<close> gives a new book is not one of the index.
\<close>

theorem C9_solo_leido:
  assumes ok: "store_ok w" and m: "members w = Some ids" and i: "i \<in> set ids"
    and v: "db w (KEY_PREFIX @ i) = Some (RString v)" and l: "json_loads v = Inr libro"
    and fresh: "case opc of Agregar t a y g n \<Rightarrow> n \<notin> set ids | _ \<Rightarrow> True"
    and w1: "w1 = snd (main_opcion u opc w)"
  shows "db w1 (KEY_PREFIX @ i) = Some (RString v)
       \<or> (\<exists>s. opc = Eliminar s) \<and> db w1 (KEY_PREFIX @ i) = None
       \<or> (\<exists>s. opc = MarcarLeido s)
           \<and> db w1 (KEY_PREFIX @ i) = Some (RString (json_dumps (marcado libro)))
           \<and> json_loads (json_dumps (marcado libro)) = Inr (marcado libro)
           \<and> subscript (marcado libro) (ascii ''leido'') = Inr (JBool True)
           \<and> (\<forall>k. k \<noteq> ascii ''leido'' \<longrightarrow> subscript (marcado libro) k = subscript libro k)"
proof (cases opc)
  case (Agregar t a y g n)
  with fresh i have "KEY_PREFIX @ i \<noteq> KEY_PREFIX @ n" by auto
  then show ?thesis
    using v by (simp add: w1 Agregar main_opcion_def agregar_frame)
next
  case Listar
  then show ?thesis using v by (simp add: w1 main_opcion_def)
next
  case (MarcarLeido s)
  then have e: "w1 = snd (marcar_como_leido s w)" by (simp add: w1 main_opcion_def)
  from marcar_cases[OF ok m e] show ?thesis
  proof
    assume "db w1 = db w"
    with v show ?thesis by simp
  next
    assume "\<exists>i0 v0 libro0. i0 \<in> set ids \<and> db w (KEY_PREFIX @ i0) = Some (RString v0)
             \<and> json_loads v0 = Inr libro0
             \<and> db w1 = (db w)(KEY_PREFIX @ i0 \<mapsto> RString (json_dumps (marcado libro0)))"
    then obtain i0 v0 libro0 where i0: "i0 \<in> set ids"
      and v0: "db w (KEY_PREFIX @ i0) = Some (RString v0)" and l0: "json_loads v0 = Inr libro0"
      and d: "db w1 = (db w)(KEY_PREFIX @ i0 \<mapsto> RString (json_dumps (marcado libro0)))"
      by blast
    show ?thesis
    proof (cases "i0 = i")
      case False
      with v d show ?thesis by simp
    next
      case True
      with v v0 l l0 have same: "libro0 = libro" by simp
      from ok m i have "entrada_ok w i" by (rule store_ok_entrada)
      with v l have lib: "is_libro libro" by (simp add: entrada_ok_def registro_ok_def)
      note mk = is_libro_marcado[OF lib]
      have "json_loads (json_dumps (marcado libro)) = Inr (marcado libro)"
        using mk(1) by (rule is_libro_roundtrip)
      with mk(2) mk(3) d True same MarcarLeido show ?thesis by simp
    qed
  qed
next
  case (Eliminar s)
  then have e: "w1 = snd (eliminar_libro s w)" by (simp add: w1 main_opcion_def)
  from eliminar_cases[OF ok m e] show ?thesis
  proof
    assume "db w1 = db w"
    with v show ?thesis by simp
  next
    assume "\<exists>i0. i0 \<in> set ids
             \<and> db w1 = (db w)(KEY_PREFIX @ i0 := None,
                               ALL_BOOKS_KEY := (if removeAll i0 ids = [] then None
                                                 else Some (RSet (removeAll i0 ids))))"
    then obtain i0 where
      d: "db w1 = (db w)(KEY_PREFIX @ i0 := None,
                               ALL_BOOKS_KEY := (if removeAll i0 ids = [] then None
                                                 else Some (RSet (removeAll i0 ids))))"
      by blast
    show ?thesis
      using v Eliminar by (cases "i0 = i") (simp_all add: d)
  qed
next
  case Salir
  then show ?thesis using v by (simp add: w1 main_opcion_def)
next
  case Otra
  then show ?thesis using v by (simp add: w1 main_opcion_def)
qed

theorem C9_solo_leido_witness:
  "store_ok mundo_dos \<and> members mundo_dos = Some [ascii ''ab12'', ascii ''cd12'']
   \<and> ascii ''ab12'' \<in> set [ascii ''ab12'', ascii ''cd12'']
   \<and> db mundo_dos (KEY_PREFIX @ ascii ''ab12'') = Some (RString (json_dumps libro_uno))
   \<and> json_loads (json_dumps libro_uno) = Inr libro_uno
   \<and> db (snd (main_opcion ascii_ucd (MarcarLeido (ascii ''12'')) mundo_dos)) (KEY_PREFIX @ ascii ''ab12'')
       = Some (RString (json_dumps (marcado libro_uno)))
   \<and> json_loads (json_dumps (marcado libro_uno)) = Inr (marcado libro_uno)
   \<and> subscript (marcado libro_uno) (ascii ''leido'') = Inr (JBool True)
   \<and> subscript (marcado libro_uno) (ascii ''titulo'') = Inr (JStr (ascii ''Dune''))
   \<and> db (snd (main_opcion ascii_ucd (MarcarLeido (ascii ''12'')) mundo_dos)) (KEY_PREFIX @ ascii ''cd12'')
       = Some (RString (json_dumps libro_dos))
   \<and> db (snd (main_opcion ascii_ucd (Eliminar (ascii ''12'')) mundo_dos)) (KEY_PREFIX @ ascii ''ab12'')
       = None
   \<and> ascii ''ef12'' \<notin> set [ascii ''ab12'', ascii ''cd12'']
   \<and> db (snd (main_opcion ascii_ucd
               (Agregar (ascii ''Emma'') (ascii ''Austen'') [] [] (ascii ''ef12'')) mundo_dos))
        (KEY_PREFIX @ ascii ''ab12'')
       = Some (RString (json_dumps libro_uno))"
proof -
  have i: "ascii ''ab12'' \<in> set [ascii ''ab12'', ascii ''cd12'']"
    and i2: "ascii ''cd12'' \<in> set [ascii ''ab12'', ascii ''cd12'']" by simp_all
  have f1: "case MarcarLeido (ascii ''12'') of Agregar t a y g n \<Rightarrow> n \<notin> set [ascii ''ab12'', ascii ''cd12'']
            | _ \<Rightarrow> True" by simp
  have f2: "case Eliminar (ascii ''12'') of Agregar t a y g n \<Rightarrow> n \<notin> set [ascii ''ab12'', ascii ''cd12'']
            | _ \<Rightarrow> True" by simp
  have f3: "case Agregar (ascii ''Emma'') (ascii ''Austen'') [] [] (ascii ''ef12'') of
              Agregar t a y g n \<Rightarrow> n \<notin> set [ascii ''ab12'', ascii ''cd12''] | _ \<Rightarrow> True" by simp
  note c1 = C9_solo_leido[OF mundo_dos_ok mundo_dos_members i db_ejemplos(2) libro_ejemplos(3) f1 refl,
              of ascii_ucd]
  note c2 = C9_solo_leido[OF mundo_dos_ok mundo_dos_members i2 db_ejemplos(3) libro_ejemplos(4) f1 refl,
              of ascii_ucd]
  note c3 = C9_solo_leido[OF mundo_dos_ok mundo_dos_members i db_ejemplos(2) libro_ejemplos(3) f2 refl,
              of ascii_ucd]
  note c4 = C9_solo_leido[OF mundo_dos_ok mundo_dos_members i db_ejemplos(2) libro_ejemplos(3) f3 refl,
              of ascii_ucd]
  have ne: "subscript libro_uno (ascii ''leido'') \<noteq> Inr (JBool True)"
    and ti: "subscript libro_uno (ascii ''titulo'') = Inr (JStr (ascii ''Dune''))"
    by (simp_all add: libro_uno_def nuevo_libro_def subscript_def)
  note r = marcar_result(3)[OF mundo_dos_ok mundo_dos_members strip_ejemplos(8) _ find_ejemplos(1)
             db_ejemplos(2) libro_ejemplos(3) refl ne]
  have m1: "db (snd (marcar_como_leido (ascii ''12'') mundo_dos))
              = (db mundo_dos)(KEY_PREFIX @ ascii ''ab12'' \<mapsto> RString (json_dumps (marcado libro_uno)))"
    using r by simp
  note e = eliminar_result(2)[OF mundo_dos_ok mundo_dos_members strip_ejemplos(8) _ find_ejemplos(1)
             db_ejemplos(2) refl]
  have e1: "db (snd (eliminar_libro (ascii ''12'') mundo_dos)) (KEY_PREFIX @ ascii ''ab12'') = None"
    using e by simp
  have mk: "json_loads (json_dumps (marcado libro_uno)) = Inr (marcado libro_uno)"
    "subscript (marcado libro_uno) (ascii ''leido'') = Inr (JBool True)"
    "subscript (marcado libro_uno) (ascii ''titulo'') = Inr (JStr (ascii ''Dune''))"
    using is_libro_marcado[OF libro_ejemplos(1)] ti
    by (simp_all add: is_libro_roundtrip)
  from c1 c2 c3 c4 show ?thesis
    using mundo_dos_ok mundo_dos_members db_ejemplos libro_ejemplos m1 e1 mk
    by (simp add: main_opcion_def agregar_frame)
qed

text \<open>
  C1. The layout of the store: a record is stored under the string key \<^verbatim>\<open>libro:<id>\<close> and
  the identifiers under the set key \<^verbatim>\<open>libros:ids\<close>; whatever the store holds, every command
  that adding, searching, listing, marking and deleting send is on a key \<^verbatim>\<open>libro:<id>\<close>
  (\<^verbatim>\<open>SET\<close>, \<^verbatim>\<open>GET\<close>, \<^verbatim>\<open>MGET\<close>, \<^verbatim>\<open>DEL\<close>) or on \<^verbatim>\<open>libros:ids\<close> (\<^verbatim>\<open>SADD\<close>, \<^verbatim>\<open>SMEMBERS\<close>,
  \<^verbatim>\<open>SREM\<close>).
\<close>

theorem C1_layout:
  "KEY_PREFIX = ascii ''libro:'' \<and> ALL_BOOKS_KEY = ascii ''libros:ids''
   \<and> take (length (cmds w)) (cmds (snd (main_opcion u opc w))) = cmds w
   \<and> list_all cmd_ok (nuevos w (snd (main_opcion u opc w)))
   \<and> take (length (cmds w)) (cmds (snd (buscar_libro_por_id_parcial s w))) = cmds w
   \<and> list_all cmd_ok (nuevos w (snd (buscar_libro_por_id_parcial s w)))
   \<and> (py_strip titulo \<noteq> [] \<and> py_strip autor \<noteq> [] \<longrightarrow>
        (\<exists>v. nuevos w (agregar_libro u titulo autor anio genero libro_id w)
               = [SET (ascii ''libro:'' @ libro_id) v, SADD (ascii ''libros:ids'') libro_id]))"
proof -
  have "\<exists>v. nuevos w (agregar_libro u titulo autor anio genero libro_id w)
               = [SET (ascii ''libro:'' @ libro_id) v, SADD (ascii ''libros:ids'') libro_id]"
    if "py_strip titulo \<noteq> []" "py_strip autor \<noteq> []"
    using that
    by (auto simp: agregar_libro_def Let_def redis_set_def redis_sadd_def nuevos_def
          KEY_PREFIX_def ALL_BOOKS_KEY_def
        split: prod.splits option.splits rval.splits)
  then show ?thesis
    using extiende_nuevos[OF extiende_main[of w u opc]] extiende_nuevos[OF extiende_buscar[OF extiende_refl, of w s]]
    by (simp add: KEY_PREFIX_def ALL_BOOKS_KEY_def)
qed

theorem C1_layout_witness:
  "py_strip (ascii ''Dune'') \<noteq> [] \<and> py_strip (ascii ''Herbert'') \<noteq> []
   \<and> nuevos mundo_vacio mundo_uno
       = [SET (ascii ''libro:'' @ ascii ''ab12'') (json_dumps libro_uno),
          SADD (ascii ''libros:ids'') (ascii ''ab12'')]
   \<and> list_all cmd_ok (nuevos mundo_uno (snd (main_opcion ascii_ucd (Eliminar (ascii ''12'')) mundo_uno)))
   \<and> list_all cmd_ok (nuevos mundo_uno (snd (buscar_libro_por_id_parcial (ascii ''12'') mundo_uno)))"
proof -
  have t: "py_strip (ascii ''Dune'') \<noteq> []" "py_strip (ascii ''Herbert'') \<noteq> []"
    by (simp_all add: strip_ejemplos)
  note c = C1_layout[of mundo_uno ascii_ucd "Eliminar (ascii ''12'')" "ascii ''12''"]
  note c' = C1_layout[of mundo_vacio ascii_ucd Listar "[]" "ascii ''Dune''" "ascii ''Herbert''"
              "ascii ''1965''" "ascii ''Sci-Fi''" "ascii ''ab12''"]
  have n: "nuevos mundo_vacio mundo_uno
       = [SET (ascii ''libro:'' @ ascii ''ab12'') (json_dumps libro_uno),
          SADD (ascii ''libros:ids'') (ascii ''ab12'')]"
    using agregar_result(2)[OF strip_ejemplos(1) _ strip_ejemplos(2) _ strip_ejemplos(3)
          leer_anio_ejemplos(1) mundo_vacio_ok(2) _ mundo_uno_def]
    by (simp add: nuevos_def mundo_vacio_def libro_uno_def KEY_PREFIX_def ALL_BOOKS_KEY_def)
  from c c' t n show ?thesis by simp
qed

text \<open>The keys are not \<^verbatim>\<open>record:<id>\<close> and \<^verbatim>\<open>records:ids\<close>: after a book is added, the
  store holds nothing under them.\<close>

theorem C1_counterexample:
  "nuevos mundo_vacio
     (agregar_libro ascii_ucd (ascii ''Dune'') (ascii ''Herbert'') (ascii ''1965'') (ascii ''Sci-Fi'')
        (ascii ''ab12'') mundo_vacio)
     = [SET (ascii ''libro:ab12'') (json_dumps libro_uno), SADD (ascii ''libros:ids'') (ascii ''ab12'')]
   \<and> ascii ''libro:ab12'' \<noteq> ascii ''record:ab12''
   \<and> ascii ''libros:ids'' \<noteq> ascii ''records:ids''
   \<and> db (agregar_libro ascii_ucd (ascii ''Dune'') (ascii ''Herbert'') (ascii ''1965'') (ascii ''Sci-Fi'')
        (ascii ''ab12'') mundo_vacio) (ascii ''record:ab12'') = None
   \<and> db (agregar_libro ascii_ucd (ascii ''Dune'') (ascii ''Herbert'') (ascii ''1965'') (ascii ''Sci-Fi'')
        (ascii ''ab12'') mundo_vacio) (ascii ''records:ids'') = None"
proof -
  have n: "nuevos mundo_vacio mundo_uno
       = [SET (ascii ''libro:ab12'') (json_dumps libro_uno),
          SADD (ascii ''libros:ids'') (ascii ''ab12'')]"
    using agregar_result(2)[OF strip_ejemplos(1) _ strip_ejemplos(2) _ strip_ejemplos(3)
          leer_anio_ejemplos(1) mundo_vacio_ok(2) _ mundo_uno_def]
    by (simp add: nuevos_def mundo_vacio_def libro_uno_def KEY_PREFIX_ascii ALL_BOOKS_KEY_def)
  have d: "db mundo_uno (ascii ''record:ab12'') = None" "db mundo_uno (ascii ''records:ids'') = None"
    by (simp_all add: mundo_uno_db KEY_PREFIX_ascii ALL_BOOKS_KEY_def)
  from n d show ?thesis
    by (simp add: mundo_uno_def)
qed

end
